theory Spec2Isabelle
  imports Main
begin

section \<open>JavaScript values read from the sheet\<close>

text \<open>
  The reverse-sync job (\<^verbatim>\<open>reverse-sync.mjs\<close>) reads the sheet with
  \<^verbatim>\<open>valueRenderOption: "UNFORMATTED_VALUE"\<close>, so a cell arrives as a string, a number
  or a boolean, and a cell beyond the end of its row reads as \<^verbatim>\<open>undefined\<close>.

  A JavaScript number is a double: not-a-number, an infinity, or a finite value. A finite
  double is a dyadic rational, hence a finite decimal, and \<open>Fin m k\<close> stands for
  \<open>m / 10 ^ k\<close>. Where the code receives a number from a decimal text (a JSON number of
  the response, the argument of \<^verbatim>\<open>Number\<close>), the value is the double nearest to the
  decimal, ties to the even significand, an infinity beyond the largest double:
  \<open>number_value\<close> below. The two zeros are not told apart: \<^verbatim>\<open>-0 === 0\<close>,
  \<^verbatim>\<open>String(-0)\<close> is \<^verbatim>\<open>"0"\<close> and \<^verbatim>\<open>JSON.stringify(-0)\<close> is \<^verbatim>\<open>"0"\<close>, and the job
  looks at a zero in no other way.

  A JavaScript string is the list of its UTF-16 code units, each a number from 0 to
  65535. The texts that the job itself builds (ranges, marks, messages) are \<open>string\<close>s,
  lists of characters with codes below 256; \<open>js\<close> gives the JavaScript string of one.
\<close>

datatype number = NaN | PosInf | NegInf | Fin int nat

type_synonym jsstring = "int list"

definition js :: "string \<Rightarrow> jsstring" where
  "js s = map of_char s"

datatype jsvalue = JUndefined | JNull | JBool bool | JNum number | JStr jsstring

type_synonym row = "jsvalue list"

text \<open>\<^verbatim>\<open>row[i]\<close>: reading past the end of a JavaScript array gives \<^verbatim>\<open>undefined\<close>.\<close>

definition cell :: "row \<Rightarrow> nat \<Rightarrow> jsvalue" where
  "cell r i = (if i < length r then r ! i else JUndefined)"

subsection \<open>Built-ins: \<^verbatim>\<open>trim\<close>, \<^verbatim>\<open>String\<close>, \<^verbatim>\<open>Number\<close>, \<^verbatim>\<open>Math.trunc\<close>\<close>

text \<open>
  The code units that \<^verbatim>\<open>String.prototype.trim\<close> and \<^verbatim>\<open>Number\<close> drop at both ends:
  the \<open>WhiteSpace\<close> of ECMAScript (TAB, VT, FF, the byte order mark \<open>U+FEFF\<close> and the
  space separators of Unicode: space, no-break space, \<open>U+1680\<close>, \<open>U+2000\<close> to
  \<open>U+200A\<close>, \<open>U+202F\<close>, \<open>U+205F\<close>, \<open>U+3000\<close>) and its \<open>LineTerminator\<close> (LF, CR,
  \<open>U+2028\<close>, \<open>U+2029\<close>).
\<close>

definition is_space :: "int \<Rightarrow> bool" where
  "is_space c =
     (c \<in> set [0x9, 0xA, 0xB, 0xC, 0xD, 0x20, 0xA0, 0x1680, 0x2028, 0x2029, 0x202F, 0x205F,
               0x3000, 0xFEFF] \<or> (0x2000 \<le> c \<and> c \<le> 0x200A))"

definition trim :: "jsstring \<Rightarrow> jsstring" where
  "trim s = rev (dropWhile is_space (rev (dropWhile is_space s)))"

fun negate :: "number \<Rightarrow> number" where
  "negate NaN = NaN"
| "negate PosInf = NegInf"
| "negate NegInf = PosInf"
| "negate (Fin m k) = Fin (- m) k"

text \<open>The number of binary digits of a positive integer.\<close>

function bit_length :: "int \<Rightarrow> nat" where
  "bit_length n = (if n \<le> 0 then 0 else Suc (bit_length (n div 2)))"
  by pat_completeness auto

termination bit_length
  by (relation "measure nat") auto

declare bit_length.simps [simp del]

text \<open>The integer nearest to \<open>a / b\<close>, the even one of two that are equally near.\<close>

definition round_half_even :: "int \<Rightarrow> int \<Rightarrow> int" where
  "round_half_even a b =
     (let q = a div b; r = a mod b
      in if 2 * r < b then q else if b < 2 * r then q + 1 else if even q then q else q + 1)"

text \<open>\<open>M / 2 ^ j\<close> as a decimal, in lowest terms.\<close>

primrec dyadic :: "int \<Rightarrow> nat \<Rightarrow> number" where
  "dyadic M 0 = Fin M 0"
| "dyadic M (Suc j) = (if odd M then Fin (M * 5 ^ Suc j) (Suc j) else dyadic (M div 2) j)"

text \<open>
  The double nearest to \<open>a / b\<close>, for \<open>0 \<le> a\<close> and \<open>0 < b\<close> (IEEE 754 binary64, round to
  nearest, ties to even). With \<open>fl\<close> the integer part of the binary logarithm of
  \<open>a / b\<close>, the double is \<open>M * 2 ^ e\<close> for the exponent \<open>e = fl - 52\<close>, or \<open>- 1074\<close> where
  the doubles are subnormal, and the significand \<open>M\<close>, the quotient \<open>a / (b * 2 ^ e)\<close>
  rounded to an integer, at most \<open>2 ^ 53\<close>. A result of \<open>2 ^ 1024\<close> or more is the infinity.
\<close>

definition double_of :: "int \<Rightarrow> int \<Rightarrow> number" where
  "double_of a b =
     (if a = 0 then Fin 0 0
      else
        let d = int (bit_length a) - int (bit_length b);
            fl = (if (if 0 \<le> d then b * 2 ^ nat d \<le> a else b \<le> a * 2 ^ nat (- d)) then d else d - 1);
            e = max (fl - 52) (- 1074);
            M = (if 0 \<le> e then round_half_even a (b * 2 ^ nat e)
                 else round_half_even (a * 2 ^ nat (- e)) b)
        in if 971 < e \<or> (e = 971 \<and> M = 2 ^ 53) then PosInf
           else if 0 \<le> e then Fin (M * 2 ^ nat e) 0
           else dyadic M (nat (- e)))"

text \<open>The Number value for a decimal: the double nearest to it.\<close>

fun number_value :: "number \<Rightarrow> number" where
  "number_value (Fin m k) =
     (if m < 0 then negate (double_of (- m) (10 ^ k)) else double_of m (10 ^ k))"
| "number_value x = x"

definition digit_char :: "nat \<Rightarrow> char" where
  "digit_char d = char_of (48 + d)"

fun decimal :: "nat \<Rightarrow> string" where
  "decimal n = (if n < 10 then [digit_char n] else decimal (n div 10) @ [digit_char (n mod 10)])"

declare decimal.simps [simp del]

text \<open>The decimal digits of an integer that is not negative.\<close>

function decimal_digits :: "int \<Rightarrow> string" where
  "decimal_digits n =
     (if n < 10 then [digit_char (nat n)]
      else decimal_digits (n div 10) @ [digit_char (nat (n mod 10))])"
  by pat_completeness auto

termination decimal_digits
  by (relation "measure nat") auto

declare decimal_digits.simps [simp del]

text \<open>The \<open>n\<close> with \<open>10 ^ (n - 1) \<le> a / b < 10 ^ n\<close>, for \<open>0 < a\<close> and \<open>0 < b\<close>.\<close>

definition magnitude :: "int \<Rightarrow> int \<Rightarrow> int" where
  "magnitude a b =
     (if b \<le> a then int (length (decimal_digits (a div b)))
      else 1 - int (length (decimal_digits ((b - 1) div a))))"

text \<open>
  \<^verbatim>\<open>Number::toString\<close> of ECMAScript writes a finite number \<open>x\<close> other than zero with
  the digits \<open>s\<close> and the exponent \<open>n\<close> such that \<open>s\<close> has \<open>k\<close> digits, the Number value
  for \<open>s * 10 ^ (n - k)\<close> is \<open>x\<close>, and \<open>k\<close> is as small as possible; of several such \<open>s\<close>
  the one nearest to \<open>x\<close>, the even one of two equally near.

  \<open>digits_near k a b always\<close> looks, for the double \<open>x = a / b\<close>, at the two decimals of
  \<open>k\<close> digits next to \<open>x\<close>, \<open>lo\<close> below or at it and \<open>lo + 1\<close> above: a decimal of \<open>k\<close>
  digits further from \<open>x\<close> has the Number value \<open>x\<close> only if one of these two has. It
  gives the nearer of those whose Number value is \<open>x\<close> (of both, when \<open>always\<close>).
\<close>

definition digits_near :: "nat \<Rightarrow> int \<Rightarrow> int \<Rightarrow> bool \<Rightarrow> (int \<times> int) option" where
  "digits_near k a b always =
     (let n = magnitude a b;
          sh = int k - n;
          A = (if 0 \<le> sh then a * 10 ^ nat sh else a);
          B = (if 0 \<le> sh then b else b * 10 ^ nat (- sh));
          lo = A div B;
          r = A mod B;
          cand = (\<lambda>s. if 0 \<le> sh then Fin s (nat sh) else Fin (s * 10 ^ nat (- sh)) 0);
          x = double_of a b;
          ok_lo = (always \<or> number_value (cand lo) = x);
          ok_hi = (always \<or> number_value (cand (lo + 1)) = x);
          hi = (if lo + 1 = 10 ^ k then (10 ^ (k - 1), n + 1) else (lo + 1, n))
      in if ok_lo \<and> (\<not> ok_hi \<or> 2 * r < B \<or> (2 * r = B \<and> even lo)) then Some (lo, n)
         else if ok_hi then Some hi
         else None)"

text \<open>The search for the least number of digits, from \<open>k\<close> on. Seventeen digits are
  enough for every double, so the search started at one digit with \<open>more = 16\<close> ends at
  the nearest decimal of seventeen digits.\<close>

fun shortest_digits :: "nat \<Rightarrow> nat \<Rightarrow> int \<Rightarrow> int \<Rightarrow> int \<times> int" where
  "shortest_digits 0 k a b = (case digits_near k a b True of Some r \<Rightarrow> r | None \<Rightarrow> (0, 0))"
| "shortest_digits (Suc more) k a b =
     (case digits_near k a b False of
        Some r \<Rightarrow> r
      | None \<Rightarrow> shortest_digits more (k + 1) a b)"

text \<open>
  The notation of \<^verbatim>\<open>Number::toString\<close> for the digits \<open>ds\<close> and the exponent \<open>n\<close>: plain
  digits with zeros appended, a decimal point inside the digits, \<^verbatim>\<open>0.\<close> with zeros
  before the digits, and exponent notation from \<open>1e21\<close> on and below \<open>1e-6\<close>.
\<close>

definition format_digits :: "string \<Rightarrow> int \<Rightarrow> string" where
  "format_digits ds n =
     (let k = int (length ds)
      in if k \<le> n \<and> n \<le> 21 then ds @ replicate (nat (n - k)) (CHR ''0'')
         else if 0 < n \<and> n \<le> 21 then take (nat n) ds @ ''.'' @ drop (nat n) ds
         else if - 6 < n \<and> n \<le> 0 then ''0.'' @ replicate (nat (- n)) (CHR ''0'') @ ds
         else
           (let e = n - 1;
                es = (if e < 0 then ''-'' else ''+'') @ decimal_digits \<bar>e\<bar>
            in if k = 1 then ds @ ''e'' @ es
               else take 1 ds @ ''.'' @ drop 1 ds @ ''e'' @ es))"

text \<open>\<^verbatim>\<open>String(n)\<close> for a number.\<close>

definition NumberToString :: "number \<Rightarrow> string" where
  "NumberToString x =
     (case number_value x of
        NaN \<Rightarrow> ''NaN''
      | PosInf \<Rightarrow> ''Infinity''
      | NegInf \<Rightarrow> ''-Infinity''
      | Fin m j \<Rightarrow>
          if m = 0 then ''0''
          else
            (case shortest_digits 16 1 \<bar>m\<bar> (10 ^ j) of
               (s, n) \<Rightarrow> (if m < 0 then ''-'' else []) @ format_digits (decimal_digits s) n))"

fun ToString :: "jsvalue \<Rightarrow> jsstring" where
  "ToString JUndefined = js ''undefined''"
| "ToString JNull = js ''null''"
| "ToString (JBool b) = (if b then js ''true'' else js ''false'')"
| "ToString (JNum n) = js (NumberToString n)"
| "ToString (JStr s) = s"

text \<open>Truthiness, as tested by \<^verbatim>\<open>row[9] ? ... : null\<close> and by \<^verbatim>\<open>!v\<close>: a number is falsy
  when it is \<open>NaN\<close> or zero.\<close>

fun truthy :: "jsvalue \<Rightarrow> bool" where
  "truthy JUndefined = False"
| "truthy JNull = False"
| "truthy (JBool b) = b"
| "truthy (JNum n) = (case number_value n of NaN \<Rightarrow> False | Fin m k \<Rightarrow> m \<noteq> 0 | _ \<Rightarrow> True)"
| "truthy (JStr s) = (s \<noteq> [])"

text \<open>The value of a digit, decimal or hexadecimal.\<close>

definition digit_value :: "int \<Rightarrow> int option" where
  "digit_value c =
     (if 48 \<le> c \<and> c \<le> 57 then Some (c - 48)
      else if 97 \<le> c \<and> c \<le> 102 then Some (c - 87)
      else if 65 \<le> c \<and> c \<le> 70 then Some (c - 55)
      else None)"

fun digits :: "int \<Rightarrow> jsstring \<Rightarrow> int \<Rightarrow> int option" where
  "digits b [] acc = Some acc"
| "digits b (c # cs) acc =
     (case digit_value c of
        None \<Rightarrow> None
      | Some d \<Rightarrow> if d < b then digits b cs (acc * b + d) else None)"

text \<open>A non-empty run of digits in base \<open>b\<close>, and nothing else.\<close>

definition numeral_of :: "int \<Rightarrow> jsstring \<Rightarrow> int option" where
  "numeral_of b s = (if s = [] then None else digits b s 0)"

definition is_exp_mark :: "int \<Rightarrow> bool" where
  "is_exp_mark c = ([c] = js ''e'' \<or> [c] = js ''E'')"

text \<open>The exponent part after the \<^verbatim>\<open>e\<close>: an optional sign and digits.\<close>

definition exponent_of :: "jsstring \<Rightarrow> int option" where
  "exponent_of s =
     (if take 1 s = js ''+'' then numeral_of 10 (drop 1 s)
      else if take 1 s = js ''-'' then map_option uminus (numeral_of 10 (drop 1 s))
      else numeral_of 10 s)"

text \<open>
  \<open>StrUnsignedDecimalLiteral\<close> of ECMAScript: \<^verbatim>\<open>Infinity\<close>, or digits with an optional
  point and an optional exponent (\<^verbatim>\<open>12\<close>, \<^verbatim>\<open>12.\<close>, \<^verbatim>\<open>12.5\<close>, \<^verbatim>\<open>.5\<close>,
  \<^verbatim>\<open>1e3\<close>); anything else is \<open>NaN\<close>. The result is the Number value for the decimal.
\<close>

definition unsigned_decimal :: "jsstring \<Rightarrow> number" where
  "unsigned_decimal s =
     (if s = js ''Infinity'' then PosInf
      else
        let mant = takeWhile (\<lambda>c. \<not> is_exp_mark c) s;
            expo = dropWhile (\<lambda>c. \<not> is_exp_mark c) s;
            ip = takeWhile (\<lambda>c. [c] \<noteq> js ''.'') mant;
            fp = drop 1 (dropWhile (\<lambda>c. [c] \<noteq> js ''.'') mant)
        in case numeral_of 10 (ip @ fp) of
             None \<Rightarrow> NaN
           | Some m \<Rightarrow>
               (case (if expo = [] then Some 0 else exponent_of (drop 1 expo)) of
                  None \<Rightarrow> NaN
                | Some e \<Rightarrow>
                    (let scale = int (length fp) - e
                     in if 0 \<le> scale then number_value (Fin m (nat scale))
                        else number_value (Fin (m * 10 ^ nat (- scale)) 0))))"

definition radix_literal :: "int \<Rightarrow> jsstring \<Rightarrow> number" where
  "radix_literal b s =
     (case numeral_of b s of None \<Rightarrow> NaN | Some n \<Rightarrow> number_value (Fin n 0))"

text \<open>
  \<^verbatim>\<open>Number(s)\<close> for a string (\<open>StringToNumber\<close>): surrounding white space is dropped, the
  empty string is \<open>0\<close>, \<^verbatim>\<open>0x\<close>, \<^verbatim>\<open>0o\<close> and \<^verbatim>\<open>0b\<close> introduce unsigned
  hexadecimal, octal and binary digits, and the rest is an optionally signed decimal
  literal.
\<close>

definition StringToNumber :: "jsstring \<Rightarrow> number" where
  "StringToNumber str =
     (let s = trim str in
        if s = [] then Fin 0 0
        else if take 2 s = js ''0x'' \<or> take 2 s = js ''0X'' then radix_literal 16 (drop 2 s)
        else if take 2 s = js ''0o'' \<or> take 2 s = js ''0O'' then radix_literal 8 (drop 2 s)
        else if take 2 s = js ''0b'' \<or> take 2 s = js ''0B'' then radix_literal 2 (drop 2 s)
        else if take 1 s = js ''+'' then unsigned_decimal (drop 1 s)
        else if take 1 s = js ''-'' then negate (unsigned_decimal (drop 1 s))
        else unsigned_decimal s)"

fun isFinite :: "number \<Rightarrow> bool" where
  "isFinite (Fin m k) = True"
| "isFinite n = False"

text \<open>\<^verbatim>\<open>Math.trunc\<close> of the finite number \<open>m / 10 ^ k\<close>: the integer part, toward zero.\<close>

definition Math_trunc :: "int \<Rightarrow> nat \<Rightarrow> int" where
  "Math_trunc m k = (if m < 0 then - ((- m) div 10 ^ k) else m div 10 ^ k)"

subsection \<open>\<^verbatim>\<open>normalizeInt\<close>\<close>

text \<open>
  \<^verbatim>\<open>
  function normalizeInt(value) {
    if (value === null || value === undefined) return null;
    const s = String(value).trim();
    if (!s) return null;
    const n = Number(s);
    if (!Number.isFinite(n)) return null;
    return Math.trunc(n);
  }
  \<close>
  \<open>None\<close> is the \<^verbatim>\<open>null\<close> result.
\<close>

definition normalizeInt :: "jsvalue \<Rightarrow> int option" where
  "normalizeInt v =
     (if v = JNull \<or> v = JUndefined then None
      else
        let s = trim (ToString v) in
          if s = [] then None
          else
            (case StringToNumber s of
               Fin m k \<Rightarrow> Some (Math_trunc m k)
             | _ \<Rightarrow> None))"

section \<open>Environment and configuration\<close>

text \<open>\<^verbatim>\<open>process.env\<close>: a variable is unset (\<open>None\<close>) or holds a string.\<close>

type_synonym env = "string \<Rightarrow> string option"

text \<open>A thrown error, with its \<^verbatim>\<open>name\<close> and its \<^verbatim>\<open>message\<close>.\<close>

datatype exn = Exn string string

abbreviation Error :: "string \<Rightarrow> exn" where
  "Error m \<equiv> Exn ''Error'' m"

text \<open>
  \<^verbatim>\<open>
  function requireEnv(name) {
    const v = process.env[name];
    if (!v) throw new Error(`Missing env var: ${name}`);
    return v;
  }
  \<close>
  An unset variable and an empty one both fail the test \<^verbatim>\<open>!v\<close>.
\<close>

definition requireEnv :: "env \<Rightarrow> string \<Rightarrow> exn + string" where
  "requireEnv env name =
     (case env name of
        None \<Rightarrow> Inl (Error (''Missing env var: '' @ name))
      | Some v \<Rightarrow> if v = [] then Inl (Error (''Missing env var: '' @ name)) else Inr v)"

text \<open>\<^verbatim>\<open>process.env.X || "default"\<close>.\<close>

definition or_default :: "string option \<Rightarrow> string \<Rightarrow> string" where
  "or_default v d = (case v of None \<Rightarrow> d | Some s \<Rightarrow> if s = [] then d else s)"

record config =
  spreadsheetId :: "string option"
  sheetName :: string
  maxRowsPerRun :: number
  shopDomain :: "string option"
  locationId :: "string option"
  token :: "string option"

text \<open>
  \<^verbatim>\<open>
  const CONFIG = {
    spreadsheetId: process.env.SPREADSHEET_ID,
    sheetName: process.env.SHEET_NAME || "Truth_Table",
    col: { desired: "E", available: "F", status: "G", lastPushedAt: "H", lastError: "I",
           inventoryItemId: "J" },
    maxRowsPerRun: Number(process.env.MAX_ROWS_PER_RUN || "50"),
    shopDomain: process.env.SHOPIFY_STORE_DOMAIN,
    locationId: process.env.SHOPIFY_LOCATION_ID,
    token: process.env.SHOPIFY_ADMIN_TOKEN,
  };
  \<close>
\<close>

definition CONFIG :: "env \<Rightarrow> config" where
  "CONFIG env =
     \<lparr> spreadsheetId = env ''SPREADSHEET_ID'',
       sheetName = or_default (env ''SHEET_NAME'') ''Truth_Table'',
       maxRowsPerRun = StringToNumber (js (or_default (env ''MAX_ROWS_PER_RUN'') ''50'')),
       shopDomain = env ''SHOPIFY_STORE_DOMAIN'',
       locationId = env ''SHOPIFY_LOCATION_ID'',
       token = env ''SHOPIFY_ADMIN_TOKEN'' \<rparr>"

definition col_desired :: string where "col_desired = ''E''"
definition col_available :: string where "col_available = ''F''"
definition col_status :: string where "col_status = ''G''"
definition col_lastPushedAt :: string where "col_lastPushedAt = ''H''"
definition col_lastError :: string where "col_lastError = ''I''"
definition col_inventoryItemId :: string where "col_inventoryItemId = ''J''"

section \<open>The candidate scan\<close>

record candidate =
  rowIndex1Based :: nat
  inventoryItemId :: jsstring
  desired :: int
  available :: int

text \<open>\<^verbatim>\<open>candidates.length >= CONFIG.maxRowsPerRun\<close>, a comparison of numbers: false against
  \<open>NaN\<close>.\<close>

fun length_ge :: "nat \<Rightarrow> number \<Rightarrow> bool" where
  "length_ge n NaN = False"
| "length_ge n PosInf = False"
| "length_ge n NegInf = True"
| "length_ge n (Fin m k) = (m \<le> int n * 10 ^ k)"

text \<open>\<^verbatim>\<open>row[9] ? String(row[9]).trim() : null\<close>\<close>

definition invItemGid_of :: "row \<Rightarrow> jsstring option" where
  "invItemGid_of r = (if truthy (cell r 9) then Some (trim (ToString (cell r 9))) else None)"

text \<open>
  The scan loop of \<^verbatim>\<open>main\<close>, from row index \<open>i\<close> on (\<open>rows\<close> are the rows from that
  index), with the candidates found so far:
  \<^verbatim>\<open>
  const candidates = [];
  for (let i = 1; i < rows.length; i++) {
    const row = rows[i];
    const desired = normalizeInt(row[4]); // E
    const available = normalizeInt(row[5]); // F
    const invItemGid = row[9] ? String(row[9]).trim() : null; // J
    if (!invItemGid) continue;
    if (desired === null || available === null) continue;
    if (desired !== available) {
      candidates.push({ rowIndex1Based: i + 1, inventoryItemId: invItemGid, desired, available });
      if (candidates.length >= CONFIG.maxRowsPerRun) break;
    }
  }
  \<close>
\<close>

fun scan_rows :: "number \<Rightarrow> nat \<Rightarrow> row list \<Rightarrow> candidate list \<Rightarrow> candidate list" where
  "scan_rows cap i [] candidates = candidates"
| "scan_rows cap i (r # rest) candidates =
     (case invItemGid_of r of
        None \<Rightarrow> scan_rows cap (i + 1) rest candidates
      | Some invItemGid \<Rightarrow>
          if invItemGid = [] then scan_rows cap (i + 1) rest candidates
          else
            (case (normalizeInt (cell r 4), normalizeInt (cell r 5)) of
               (Some d, Some a) \<Rightarrow>
                 if d \<noteq> a then
                   (let candidates' = candidates @
                          [\<lparr> rowIndex1Based = i + 1, inventoryItemId = invItemGid,
                             desired = d, available = a \<rparr>]
                    in if length_ge (length candidates') cap then candidates'
                       else scan_rows cap (i + 1) rest candidates')
                 else scan_rows cap (i + 1) rest candidates
             | _ \<Rightarrow> scan_rows cap (i + 1) rest candidates))"

text \<open>The candidates of a snapshot: the loop starts at index 1, below the header row.\<close>

definition scan :: "config \<Rightarrow> row list \<Rightarrow> candidate list" where
  "scan cfg rows = scan_rows (maxRowsPerRun cfg) 1 (drop 1 rows) []"

section \<open>The platform and the row store\<close>

text \<open>
  A user error of \<^verbatim>\<open>inventorySetQuantities\<close>: its \<^verbatim>\<open>code\<close>, and the text
  \<^verbatim>\<open>JSON.stringify\<close> gives for the object.
\<close>

record user_error =
  error_code :: string
  json_text :: string

text \<open>
  What the job reads of \<^verbatim>\<open>json.data\<close>:
  \<^verbatim>\<open>data?.inventorySetQuantities?.userErrors || []\<close> and the \<^verbatim>\<open>quantity\<close> of the entry
  named \<^verbatim>\<open>available\<close> in \<^verbatim>\<open>data?.inventoryLevel?.quantities\<close>, \<open>None\<close> when it is
  missing or not a number (the platform's quantities are GraphQL \<^verbatim>\<open>Int\<close>s).
\<close>

record gql_data =
  userErrors :: "user_error list"
  level_available :: "int option"

text \<open>
  The parsed response body: its \<^verbatim>\<open>JSON.stringify\<close> text, the text of \<^verbatim>\<open>json.errors\<close>
  when that is a non-empty array, and \<^verbatim>\<open>json.data\<close>.
\<close>

record body =
  body_text :: string
  body_errors :: "string option"
  body_data :: gql_data

text \<open>\<^verbatim>\<open>fetch\<close> rejects, or resolves to a response with \<^verbatim>\<open>ok\<close>, \<^verbatim>\<open>status\<close> and body.\<close>

datatype http_result = Rejected exn | Response bool nat body

text \<open>
  The two GraphQL operations, with their variables: the \<^verbatim>\<open>InventorySet\<close> mutation
  (item, location, \<^verbatim>\<open>quantity\<close>, \<^verbatim>\<open>compareQuantity\<close>; the name \<^verbatim>\<open>available\<close> and the
  reason \<^verbatim>\<open>correction\<close> are constants) and the \<^verbatim>\<open>GetInventoryLevel\<close> query.
\<close>

datatype gql_request =
    InventorySet jsstring "string option" int int
  | GetInventoryLevel jsstring "string option"

text \<open>An A1 range: \<^verbatim>\<open>`${sheetName}!A:Z`\<close> or \<^verbatim>\<open>`${sheetName}!${column}${row}`\<close>.\<close>

datatype a1 = Range_AZ string | Cell_at string string nat

type_synonym cell_write = "a1 \<times> string"

text \<open>The calls the job makes to the outside, in the order it makes them.\<close>

datatype event =
    ValuesGet "string option" a1
  | BatchUpdate "string option" "cell_write list"
  | Fetch string string gql_request

text \<open>
  The outside world is a state \<open>'w\<close> with one function per call: reading the values of
  a range (the call throws, or returns \<^verbatim>\<open>res.data.values\<close>, which may be undefined), the
  bulk write (throws or returns), the HTTP request to the platform (store domain, access
  token, operation), and the clock read by \<^verbatim>\<open>nowIso\<close>.
\<close>

record 'w io =
  values_get :: "'w \<Rightarrow> string option \<Rightarrow> a1 \<Rightarrow> (exn + row list option) \<times> 'w"
  values_batchUpdate :: "'w \<Rightarrow> string option \<Rightarrow> cell_write list \<Rightarrow> (exn + unit) \<times> 'w"
  fetch :: "'w \<Rightarrow> string \<Rightarrow> string \<Rightarrow> gql_request \<Rightarrow> http_result \<times> 'w"
  now :: "'w \<Rightarrow> string \<times> 'w"

text \<open>The state of a run: the world, and the calls made so far.\<close>

type_synonym 'w state = "'w \<times> event list"

section \<open>The platform client\<close>

text \<open>
  \<^verbatim>\<open>
  async function shopifyGraphql(query, variables) {
    const shopDomain = requireEnv("SHOPIFY_STORE_DOMAIN");
    const token = requireEnv("SHOPIFY_ADMIN_TOKEN");
    const url = `https://${shopDomain}/admin/api/2025-10/graphql.json`;
    const resp = await fetch(url, { method: "POST", headers: {...}, body: ... });
    const json = await resp.json().catch(() => ({}));
    if (!resp.ok) {
      throw new Error(`Shopify HTTP ${resp.status}: ${JSON.stringify(json).slice(0, 500)}`);
    }
    if (json.errors?.length) {
      throw new Error(`Shopify GraphQL errors: ${JSON.stringify(json.errors).slice(0, 500)}`);
    }
    return json.data;
  }
  \<close>
\<close>

text \<open>What \<^verbatim>\<open>shopifyGraphql\<close> makes of the outcome of \<^verbatim>\<open>fetch\<close>: the error it throws (a
  rejected \<^verbatim>\<open>fetch\<close> throws its own), or \<^verbatim>\<open>json.data\<close>.\<close>

fun interpret_response :: "http_result \<Rightarrow> exn + gql_data" where
  "interpret_response (Rejected e) = Inl e"
| "interpret_response (Response ok status json) =
     (if \<not> ok then
        Inl (Error (''Shopify HTTP '' @ decimal status @ '': '' @ take 500 (body_text json)))
      else
        (case body_errors json of
           Some errs \<Rightarrow> Inl (Error (''Shopify GraphQL errors: '' @ take 500 errs))
         | None \<Rightarrow> Inr (body_data json)))"

fun shopifyGraphql :: "'w io \<Rightarrow> env \<Rightarrow> gql_request \<Rightarrow> 'w state \<Rightarrow> (exn + gql_data) \<times> 'w state" where
  "shopifyGraphql io env req (w, tr) =
     (case requireEnv env ''SHOPIFY_STORE_DOMAIN'' of
        Inl e \<Rightarrow> (Inl e, (w, tr))
      | Inr dmn \<Rightarrow>
     (case requireEnv env ''SHOPIFY_ADMIN_TOKEN'' of
        Inl e \<Rightarrow> (Inl e, (w, tr))
      | Inr tok \<Rightarrow>
     (case fetch io w dmn tok req of
        (resp, w') \<Rightarrow> (interpret_response resp, (w', tr @ [Fetch dmn tok req])))))"

text \<open>
  \<^verbatim>\<open>
  async function getCurrentAvailableQuantity(inventoryItemId, locationId) {
    const data = await shopifyGraphql(GET_CURRENT_AVAILABLE_QUERY, { inventoryItemId, locationId });
    const q = data?.inventoryLevel?.quantities?.find((x) => x.name === "available")?.quantity;
    if (typeof q !== "number") {
      throw new Error("Could not read current Shopify available quantity (inventoryLevel/quantities).");
    }
    return q;
  }
  \<close>
\<close>

definition getCurrentAvailableQuantity ::
  "'w io \<Rightarrow> env \<Rightarrow> jsstring \<Rightarrow> string option \<Rightarrow> 'w state \<Rightarrow> (exn + int) \<times> 'w state" where
  "getCurrentAvailableQuantity io env item loc s =
     (case shopifyGraphql io env (GetInventoryLevel item loc) s of
        (Inl e, s') \<Rightarrow> (Inl e, s')
      | (Inr d, s') \<Rightarrow>
          (case level_available d of
             None \<Rightarrow>
               (Inl (Error ''Could not read current Shopify available quantity (inventoryLevel/quantities).''), s')
           | Some q \<Rightarrow> (Inr q, s')))"

text \<open>\<^verbatim>\<open>JSON.stringify(userErrors)\<close>: the objects' texts, between brackets, with commas.\<close>

fun comma_separated :: "string list \<Rightarrow> string" where
  "comma_separated [] = []"
| "comma_separated [x] = x"
| "comma_separated (x # y # ys) = x @ '','' @ comma_separated (y # ys)"

definition stringify_userErrors :: "user_error list \<Rightarrow> string" where
  "stringify_userErrors ues = ''['' @ comma_separated (map json_text ues) @ '']''"

text \<open>
  The closure \<^verbatim>\<open>runOnce\<close> of \<^verbatim>\<open>shopifyInventorySetAvailable\<close>: one conditional set with
  the precondition \<^verbatim>\<open>cmpQty\<close>; it returns the user errors of the answer.
  \<^verbatim>\<open>
  const runOnce = async (cmpQty) => {
    const variables = { input: { name: "available", reason: "correction", ...,
        quantities: [{ inventoryItemId, locationId, quantity, compareQuantity: cmpQty }] } };
    const data = await shopifyGraphql(INVENTORY_SET_MUTATION, variables);
    const payload = data?.inventorySetQuantities;
    const userErrors = payload?.userErrors || [];
    return { payload, userErrors };
  };
  \<close>
\<close>

definition runOnce ::
  "'w io \<Rightarrow> env \<Rightarrow> jsstring \<Rightarrow> string option \<Rightarrow> int \<Rightarrow> int \<Rightarrow> 'w state
     \<Rightarrow> (exn + user_error list) \<times> 'w state" where
  "runOnce io env item loc quantity cmpQty s =
     (case shopifyGraphql io env (InventorySet item loc quantity cmpQty) s of
        (Inl e, s') \<Rightarrow> (Inl e, s')
      | (Inr d, s') \<Rightarrow> (Inr (userErrors d), s'))"

text \<open>\<^verbatim>\<open>userErrors.find((e) => e.code === "COMPARE_QUANTITY_STALE")\<close> finds one.\<close>

definition has_stale :: "user_error list \<Rightarrow> bool" where
  "has_stale ues = (''COMPARE_QUANTITY_STALE'' \<in> set (map error_code ues))"

text \<open>The end of \<^verbatim>\<open>shopifyInventorySetAvailable\<close>:
  \<^verbatim>\<open>
  if (userErrors.length) {
    throw new Error(`Shopify userErrors: ${JSON.stringify(userErrors).slice(0, 500)}`);
  }
  return payload;
  \<close>
\<close>

definition conclude :: "user_error list \<Rightarrow> exn + unit" where
  "conclude ues =
     (if ues \<noteq> [] then Inl (Error (''Shopify userErrors: '' @ take 500 (stringify_userErrors ues)))
      else Inr ())"

text \<open>
  \<^verbatim>\<open>
  async function shopifyInventorySetAvailable({ inventoryItemId, locationId, quantity, compareQuantity }) {
    requireEnv("SHOPIFY_STORE_DOMAIN");
    requireEnv("SHOPIFY_ADMIN_TOKEN");
    requireEnv("SHOPIFY_LOCATION_ID");
    const runOnce = ...;
    // Attempt #1 using sheet-known compareQuantity
    let { payload, userErrors } = await runOnce(compareQuantity);
    if (userErrors.length) {
      const stale = userErrors.find((e) => e.code === "COMPARE_QUANTITY_STALE");
      if (stale) {
        // Attempt #2: refresh compareQuantity from Shopify and retry once
        const current = await getCurrentAvailableQuantity(inventoryItemId, locationId);
        ({ payload, userErrors } = await runOnce(current));
      }
    }
    if (userErrors.length) { throw ... }
    return payload;
  }
  \<close>
\<close>

definition shopifyInventorySetAvailable ::
  "'w io \<Rightarrow> env \<Rightarrow> jsstring \<Rightarrow> string option \<Rightarrow> int \<Rightarrow> int \<Rightarrow> 'w state
     \<Rightarrow> (exn + unit) \<times> 'w state" where
  "shopifyInventorySetAvailable io env item loc quantity compareQuantity s =
     (case requireEnv env ''SHOPIFY_STORE_DOMAIN'' of Inl e \<Rightarrow> (Inl e, s) | Inr _ \<Rightarrow>
     (case requireEnv env ''SHOPIFY_ADMIN_TOKEN'' of Inl e \<Rightarrow> (Inl e, s) | Inr _ \<Rightarrow>
     (case requireEnv env ''SHOPIFY_LOCATION_ID'' of Inl e \<Rightarrow> (Inl e, s) | Inr _ \<Rightarrow>
     (case runOnce io env item loc quantity compareQuantity s of
        (Inl e, s1) \<Rightarrow> (Inl e, s1)
      | (Inr ues, s1) \<Rightarrow>
          if ues \<noteq> [] \<and> has_stale ues then
            (case getCurrentAvailableQuantity io env item loc s1 of
               (Inl e, s2) \<Rightarrow> (Inl e, s2)
             | (Inr current, s2) \<Rightarrow>
                 (case runOnce io env item loc quantity current s2 of
                    (Inl e, s3) \<Rightarrow> (Inl e, s3)
                  | (Inr ues', s3) \<Rightarrow> (conclude ues', s3)))
          else (conclude ues, s1)))))"

section \<open>The run\<close>

text \<open>The text written to \<^verbatim>\<open>lastError\<close>: \<^verbatim>\<open>String(err?.message || err).slice(0, 450)\<close>.
  An error with an empty message prints as its name.\<close>

fun error_text :: "exn \<Rightarrow> string" where
  "error_text (Exn name message) = take 450 (if message \<noteq> [] then message else name)"

text \<open>
  The body of the loop over the candidates, up to the choice of the records: the
  \<^verbatim>\<open>try\<close> block calls \<^verbatim>\<open>shopifyInventorySetAvailable\<close> with the candidate's item, the
  configured location, \<^verbatim>\<open>quantity: c.desired\<close> and \<^verbatim>\<open>compareQuantity: c.available\<close>, and
  reads the clock (\<^verbatim>\<open>nowIso()\<close>) on success; \<open>Inl\<close> is the error that \<^verbatim>\<open>catch\<close> receives.
\<close>

definition push_one ::
  "'w io \<Rightarrow> env \<Rightarrow> config \<Rightarrow> candidate \<Rightarrow> 'w state \<Rightarrow> (exn + string) \<times> 'w state" where
  "push_one io env cfg c s =
     (case shopifyInventorySetAvailable io env (inventoryItemId c) (locationId cfg)
             (desired c) (available c) s of
        (Inl err, s1) \<Rightarrow> (Inl err, s1)
      | (Inr _, (w1, tr1)) \<Rightarrow> (case now io w1 of (t, w2) \<Rightarrow> (Inr t, (w2, tr1))))"

text \<open>
  The records pushed to \<^verbatim>\<open>updates\<close> for one candidate:
  \<^verbatim>\<open>
  updates.push(
    { range: `${CONFIG.sheetName}!${CONFIG.col.status}${c.rowIndex1Based}`, values: [[""]] },
    { range: `${CONFIG.sheetName}!${CONFIG.col.lastPushedAt}${c.rowIndex1Based}`, values: [[nowIso()]] },
    { range: `${CONFIG.sheetName}!${CONFIG.col.lastError}${c.rowIndex1Based}`, values: [[""]] },
    { range: `${CONFIG.sheetName}!${CONFIG.col.desired}${c.rowIndex1Based}`, values: [[""]] }
  );
  \<close>
  after a success, and in the \<^verbatim>\<open>catch\<close> block
  \<^verbatim>\<open>
  const msg = String(err?.message || err).slice(0, 450);
  updates.push(
    { range: `${CONFIG.sheetName}!${CONFIG.col.status}${c.rowIndex1Based}`, values: [["ERROR"]] },
    { range: `${CONFIG.sheetName}!${CONFIG.col.lastError}${c.rowIndex1Based}`, values: [[msg]] }
  );
  \<close>
\<close>

definition outcome_records :: "config \<Rightarrow> candidate \<Rightarrow> exn + string \<Rightarrow> cell_write list" where
  "outcome_records cfg c outcome =
     (case outcome of
        Inr t \<Rightarrow>
          [(Cell_at (sheetName cfg) col_status (rowIndex1Based c), []),
           (Cell_at (sheetName cfg) col_lastPushedAt (rowIndex1Based c), t),
           (Cell_at (sheetName cfg) col_lastError (rowIndex1Based c), []),
           (Cell_at (sheetName cfg) col_desired (rowIndex1Based c), [])]
      | Inl err \<Rightarrow>
          [(Cell_at (sheetName cfg) col_status (rowIndex1Based c), ''ERROR''),
           (Cell_at (sheetName cfg) col_lastError (rowIndex1Based c), error_text err)])"

text \<open>\<^verbatim>\<open>for (const c of candidates) { try { ... } catch (err) { ... } }\<close>, with the
  \<^verbatim>\<open>updates\<close> collected so far.\<close>

fun push_all ::
  "'w io \<Rightarrow> env \<Rightarrow> config \<Rightarrow> candidate list \<Rightarrow> cell_write list \<Rightarrow> 'w state
     \<Rightarrow> cell_write list \<times> 'w state" where
  "push_all io env cfg [] updates s = (updates, s)"
| "push_all io env cfg (c # cs) updates s =
     (case push_one io env cfg c s of
        (outcome, s1) \<Rightarrow> push_all io env cfg cs (updates @ outcome_records cfg c outcome) s1)"

text \<open>The outcome of each candidate of the loop, in order (\<open>Inr\<close> the time stamp of a
  success, \<open>Inl\<close> the error of a failure).\<close>

fun push_outcomes ::
  "'w io \<Rightarrow> env \<Rightarrow> config \<Rightarrow> candidate list \<Rightarrow> 'w state \<Rightarrow> (exn + string) list" where
  "push_outcomes io env cfg [] s = []"
| "push_outcomes io env cfg (c # cs) s =
     (case push_one io env cfg c s of
        (outcome, s1) \<Rightarrow> outcome # push_outcomes io env cfg cs s1)"

text \<open>
  \<^verbatim>\<open>
  data: candidates.map((c) => ({
    range: `${CONFIG.sheetName}!${CONFIG.col.status}${c.rowIndex1Based}`,
    values: [["PENDING"]],
  }))
  \<close>
\<close>

definition pending_records :: "config \<Rightarrow> candidate list \<Rightarrow> cell_write list" where
  "pending_records cfg candidates =
     map (\<lambda>c. (Cell_at (sheetName cfg) col_status (rowIndex1Based c), ''PENDING'')) candidates"

text \<open>
  \<^verbatim>\<open>main\<close> from ``Mark PENDING first'' on, for a non-empty list of candidates: the bulk
  write of the PENDING marks, the loop, and the bulk write of \<^verbatim>\<open>updates\<close>. A bulk
  write that throws ends the run.
\<close>

definition write_back ::
  "'w io \<Rightarrow> env \<Rightarrow> config \<Rightarrow> candidate list \<Rightarrow> 'w state \<Rightarrow> (exn + unit) \<times> 'w state" where
  "write_back io env cfg candidates s =
     (case s of (w, tr) \<Rightarrow>
     (case values_batchUpdate io w (spreadsheetId cfg) (pending_records cfg candidates) of
        (Inl e, w1) \<Rightarrow>
          (Inl e, (w1, tr @ [BatchUpdate (spreadsheetId cfg) (pending_records cfg candidates)]))
      | (Inr _, w1) \<Rightarrow>
          (case push_all io env cfg candidates []
                  (w1, tr @ [BatchUpdate (spreadsheetId cfg) (pending_records cfg candidates)]) of
             (updates, (w2, tr2)) \<Rightarrow>
               (case values_batchUpdate io w2 (spreadsheetId cfg) updates of
                  (r, w3) \<Rightarrow> (r, (w3, tr2 @ [BatchUpdate (spreadsheetId cfg) updates]))))))"

text \<open>
  \<^verbatim>\<open>
  async function main() {
    requireEnv("SPREADSHEET_ID");
    requireEnv("SHOPIFY_STORE_DOMAIN");
    requireEnv("SHOPIFY_LOCATION_ID");
    requireEnv("SHOPIFY_ADMIN_TOKEN");
    const sheets = await getSheetsClient();
    const range = `${CONFIG.sheetName}!A:Z`;
    const res = await sheets.spreadsheets.values.get({ spreadsheetId: CONFIG.spreadsheetId,
      range, valueRenderOption: "UNFORMATTED_VALUE" });
    const rows = res.data.values || [];
    if (rows.length < 2) { console.log("No data rows found."); return; }
    ... the scan ...
    if (candidates.length === 0) return;
    ... the PENDING batch, the loop, the outcome batch ...
  }
  \<close>
  The run starts from a world \<open>w\<close> with no call made, and ends with \<open>Inl\<close> the error
  that reaches \<^verbatim>\<open>main().catch\<close> or with \<open>Inr ()\<close>. (Building the Sheets client makes no
  call; the \<^verbatim>\<open>console\<close> output is not modelled.)
\<close>

definition main :: "'w io \<Rightarrow> env \<Rightarrow> 'w \<Rightarrow> (exn + unit) \<times> 'w state" where
  "main io env w =
     (let cfg = CONFIG env in
     (case requireEnv env ''SPREADSHEET_ID'' of Inl e \<Rightarrow> (Inl e, (w, [])) | Inr _ \<Rightarrow>
     (case requireEnv env ''SHOPIFY_STORE_DOMAIN'' of Inl e \<Rightarrow> (Inl e, (w, [])) | Inr _ \<Rightarrow>
     (case requireEnv env ''SHOPIFY_LOCATION_ID'' of Inl e \<Rightarrow> (Inl e, (w, [])) | Inr _ \<Rightarrow>
     (case requireEnv env ''SHOPIFY_ADMIN_TOKEN'' of Inl e \<Rightarrow> (Inl e, (w, [])) | Inr _ \<Rightarrow>
     (case values_get io w (spreadsheetId cfg) (Range_AZ (sheetName cfg)) of
        (Inl e, w1) \<Rightarrow> (Inl e, (w1, [ValuesGet (spreadsheetId cfg) (Range_AZ (sheetName cfg))]))
      | (Inr values, w1) \<Rightarrow>
          (let rows = (case values of None \<Rightarrow> [] | Some vs \<Rightarrow> vs);
               s1 = (w1, [ValuesGet (spreadsheetId cfg) (Range_AZ (sheetName cfg))])
           in if length rows < 2 then (Inr (), s1)
              else
                (let candidates = scan cfg rows
                 in if candidates = [] then (Inr (), s1)
                    else write_back io env cfg candidates s1))))))))"

section \<open>A row store and a platform to run the job against\<close>

text \<open>
  A row store with one tab, holding the rows as \<^verbatim>\<open>values.get\<close> returns them. A bulk
  write with \<^verbatim>\<open>valueInputOption: "RAW"\<close> stores each string as it is (the empty string
  empties the cell), growing the grid where the cell lies beyond it.
\<close>

text \<open>The index of a column letter: \<^verbatim>\<open>A\<close> is 0, \<^verbatim>\<open>Z\<close> is 25, \<^verbatim>\<open>AA\<close> is 26.\<close>

definition column_index :: "string \<Rightarrow> nat" where
  "column_index col = foldl (\<lambda>n c. n * 26 + (of_char c - 64)) 0 col - 1"

definition pad :: "nat \<Rightarrow> 'a \<Rightarrow> 'a list \<Rightarrow> 'a list" where
  "pad n x xs = xs @ replicate (n - length xs) x"

text \<open>Storing \<open>v\<close> in column \<open>ci\<close> of the sheet row \<open>r\<close> (rows count from 1).\<close>

definition write_cell :: "row list \<Rightarrow> nat \<Rightarrow> nat \<Rightarrow> string \<Rightarrow> row list" where
  "write_cell g ci r v =
     (if r = 0 then g
      else
        (let g1 = pad r [] g
         in g1[r - 1 := (pad (ci + 1) (JStr []) (g1 ! (r - 1)))[ci := JStr (js v)]]))"

fun apply_write :: "row list \<Rightarrow> cell_write \<Rightarrow> row list" where
  "apply_write g (Cell_at tab col r, v) = write_cell g (column_index col) r v"
| "apply_write g (Range_AZ tab, v) = g"

definition apply_writes :: "row list \<Rightarrow> cell_write list \<Rightarrow> row list" where
  "apply_writes g ws = foldl apply_write g ws"

text \<open>
  The world of a run against this row store: the grid and the state \<open>'p\<close> of a platform,
  given by its answer to a request and by its clock. The calls to the row store do not
  fail, and nothing but the job's bulk writes changes the grid.
\<close>

definition sheet_io ::
  "('p \<Rightarrow> string \<Rightarrow> string \<Rightarrow> gql_request \<Rightarrow> http_result \<times> 'p) \<Rightarrow> ('p \<Rightarrow> string \<times> 'p)
     \<Rightarrow> (row list \<times> 'p) io" where
  "sheet_io platform clock =
     \<lparr> values_get = (\<lambda>(g, p) sid rng. (Inr (Some g), (g, p))),
       values_batchUpdate = (\<lambda>(g, p) sid ws. (Inr (), (apply_writes g ws, p))),
       fetch = (\<lambda>(g, p) d t req. case platform p d t req of (r, p') \<Rightarrow> (r, (g, p'))),
       now = (\<lambda>(g, p). case clock p of (t, p') \<Rightarrow> (t, (g, p'))) \<rparr>"

text \<open>
  A platform that keeps one quantity per item and does what the conditional set is
  documented to do: the set is applied when \<^verbatim>\<open>compareQuantity\<close> is the live quantity, it
  is refused with the user error \<^verbatim>\<open>COMPARE_QUANTITY_STALE\<close> when it is not, and with
  another user error when the item is unknown.
\<close>

definition ok_body :: "gql_data \<Rightarrow> body" where
  "ok_body d = \<lparr> body_text = ''{}'', body_errors = None, body_data = d \<rparr>"

definition stale_error :: user_error where
  "stale_error =
     \<lparr> error_code = ''COMPARE_QUANTITY_STALE'',
       json_text = ''{\"code\":\"COMPARE_QUANTITY_STALE\"}'' \<rparr>"

definition unknown_item_error :: user_error where
  "unknown_item_error =
     \<lparr> error_code = ''INVALID_INVENTORY_ITEM'',
       json_text = ''{\"code\":\"INVALID_INVENTORY_ITEM\"}'' \<rparr>"

fun cas_platform ::
  "(jsstring \<times> int) list \<Rightarrow> string \<Rightarrow> string \<Rightarrow> gql_request
     \<Rightarrow> http_result \<times> (jsstring \<times> int) list" where
  "cas_platform p d t (InventorySet item loc quantity cmpQty) =
     (case map_of p item of
        None \<Rightarrow>
          (Response True 200 (ok_body \<lparr> userErrors = [unknown_item_error], level_available = None \<rparr>), p)
      | Some live \<Rightarrow>
          if live = cmpQty then
            (Response True 200 (ok_body \<lparr> userErrors = [], level_available = None \<rparr>),
             (item, quantity) # p)
          else
            (Response True 200 (ok_body \<lparr> userErrors = [stale_error], level_available = None \<rparr>), p))"
| "cas_platform p d t (GetInventoryLevel item loc) =
     (Response True 200 (ok_body \<lparr> userErrors = [], level_available = map_of p item \<rparr>), p)"

text \<open>A platform that answers from a script, whatever the request, and a clock that
  stands still.\<close>

fun scripted_platform ::
  "http_result list \<Rightarrow> string \<Rightarrow> string \<Rightarrow> gql_request \<Rightarrow> http_result \<times> http_result list" where
  "scripted_platform [] d t req = (Rejected (Exn ''TypeError'' ''fetch failed''), [])"
| "scripted_platform (r # rs) d t req = (r, rs)"

definition fixed_clock :: "'p \<Rightarrow> string \<times> 'p" where
  "fixed_clock p = (''2025-01-01T00:00:00.000Z'', p)"

text \<open>An environment with the four variables the job requires, and the two it does not.\<close>

definition base_env :: env where
  "base_env =
     [''SPREADSHEET_ID'' \<mapsto> ''sheet-1'',
      ''SHOPIFY_STORE_DOMAIN'' \<mapsto> ''shop.example'',
      ''SHOPIFY_LOCATION_ID'' \<mapsto> ''gid://shopify/Location/1'',
      ''SHOPIFY_ADMIN_TOKEN'' \<mapsto> ''secret'']"

definition header_row :: row where
  "header_row = map (\<lambda>s. JStr (js s)) [''A'', ''B'', ''C'', ''D'', ''Desired_Available'', ''Available'',
     ''ReverseSync_Status'', ''ReverseSync_LastPushedAt'', ''ReverseSync_LastError'',
     ''InventoryItem_ID'']"

text \<open>A data row with the given desired and available cells and item id.\<close>

definition data_row :: "jsvalue \<Rightarrow> jsvalue \<Rightarrow> string \<Rightarrow> row" where
  "data_row d a item =
     [JStr [], JStr [], JStr [], JStr [], d, a, JStr [], JStr [], JStr [], JStr (js item)]"

section \<open>Notions used to state the properties\<close>

text \<open>
  What the scan loop tests of a row: the item id cell is truthy and not blank, both
  quantity cells normalise to an integer, and the two integers differ.
\<close>

definition eligible :: "row \<Rightarrow> bool" where
  "eligible r =
     (truthy (cell r 9) \<and> trim (ToString (cell r 9)) \<noteq> [] \<and>
      normalizeInt (cell r 4) \<noteq> None \<and> normalizeInt (cell r 5) \<noteq> None \<and>
      normalizeInt (cell r 4) \<noteq> normalizeInt (cell r 5))"

text \<open>The candidate that the loop body pushes for the row at index \<open>i\<close>, if any.\<close>

definition candidate_at :: "nat \<Rightarrow> row \<Rightarrow> candidate option" where
  "candidate_at i r =
     (case (normalizeInt (cell r 4), normalizeInt (cell r 5)) of
        (Some d, Some a) \<Rightarrow>
          if eligible r then
            Some \<lparr> rowIndex1Based = i + 1, inventoryItemId = trim (ToString (cell r 9)),
                   desired = d, available = a \<rparr>
          else None
      | _ \<Rightarrow> None)"

text \<open>The candidates of all eligible rows, from index \<open>i\<close> on, in row order.\<close>

fun all_candidates :: "nat \<Rightarrow> row list \<Rightarrow> candidate list" where
  "all_candidates i [] = []"
| "all_candidates i (r # rest) =
     (case candidate_at i r of
        None \<Rightarrow> all_candidates (i + 1) rest
      | Some c \<Rightarrow> c # all_candidates (i + 1) rest)"

text \<open>
  A list cut where the loop breaks: after the element that brings the count (\<open>n\<close> so
  far) to the cap.
\<close>

fun capped :: "number \<Rightarrow> nat \<Rightarrow> 'a list \<Rightarrow> 'a list" where
  "capped cap n [] = []"
| "capped cap n (c # cs) = c # (if length_ge (n + 1) cap then [] else capped cap (n + 1) cs)"

text \<open>A call to the platform, a bulk write.\<close>

fun is_fetch :: "event \<Rightarrow> bool" where
  "is_fetch (Fetch d t req) = True"
| "is_fetch e = False"

fun is_write :: "event \<Rightarrow> bool" where
  "is_write (BatchUpdate sid ws) = True"
| "is_write e = False"

text \<open>A conditional-set request.\<close>

fun is_set_attempt :: "event \<Rightarrow> bool" where
  "is_set_attempt (Fetch d t (InventorySet item loc quantity cmpQty)) = True"
| "is_set_attempt e = False"

text \<open>The sheet row of a cell range, and its column.\<close>

fun row_of :: "a1 \<Rightarrow> nat" where
  "row_of (Cell_at tab col r) = r"
| "row_of (Range_AZ tab) = 0"

fun column_of :: "a1 \<Rightarrow> string" where
  "column_of (Cell_at tab col r) = col"
| "column_of (Range_AZ tab) = []"

text \<open>The row of a grid at a list index; no row beyond the grid.\<close>

definition row_at :: "row list \<Rightarrow> nat \<Rightarrow> row" where
  "row_at g j = (if j < length g then g ! j else [])"

text \<open>
  The candidates and the state with which \<^verbatim>\<open>main\<close> enters its loop over the
  candidates, when it gets there: the four required variables are set, the read of the
  rows returns, the scan finds at least one candidate, and the bulk write of the
  PENDING marks returns.
\<close>

definition loop_entry :: "'w io \<Rightarrow> env \<Rightarrow> 'w \<Rightarrow> (candidate list \<times> 'w state) option" where
  "loop_entry io env w =
     (let cfg = CONFIG env in
     (case (requireEnv env ''SPREADSHEET_ID'', requireEnv env ''SHOPIFY_STORE_DOMAIN'',
            requireEnv env ''SHOPIFY_LOCATION_ID'', requireEnv env ''SHOPIFY_ADMIN_TOKEN'') of
        (Inr _, Inr _, Inr _, Inr _) \<Rightarrow>
          (case values_get io w (spreadsheetId cfg) (Range_AZ (sheetName cfg)) of
             (Inr values, w1) \<Rightarrow>
               (let cands = scan cfg (case values of None \<Rightarrow> [] | Some vs \<Rightarrow> vs)
                in if cands = [] then None
                   else
                     (case values_batchUpdate io w1 (spreadsheetId cfg) (pending_records cfg cands) of
                        (Inr _, w2) \<Rightarrow>
                          Some (cands,
                            (w2, [ValuesGet (spreadsheetId cfg) (Range_AZ (sheetName cfg)),
                                  BatchUpdate (spreadsheetId cfg) (pending_records cfg cands)]))
                      | _ \<Rightarrow> None))
           | _ \<Rightarrow> None)
      | _ \<Rightarrow> None))"

text \<open>
  A sheet and a platform for the scenarios: the row of \<^verbatim>\<open>item1\<close> is in step with the
  platform (available 10, desired 7), the platform has drifted from the row of
  \<^verbatim>\<open>item2\<close> (available 4 in the sheet, 8 live, desired 3), and the platform does not
  know the item of the last row.
\<close>

definition example_sheet :: "row list" where
  "example_sheet =
     [header_row,
      data_row (JNum (Fin 7 0)) (JNum (Fin 10 0)) ''item1'',
      data_row (JNum (Fin 3 0)) (JNum (Fin 4 0)) ''item2'',
      data_row (JNum (Fin 5 0)) (JNum (Fin 6 0)) ''ghost'']"

definition example_platform :: "(jsstring \<times> int) list" where
  "example_platform = [(js ''item1'', 10), (js ''item2'', 8)]"

text \<open>
  A well-formed integer, in the words of the specification: a whole number, or a text
  that is, after trimming, an optional sign followed by decimal digits and nothing else.
\<close>

definition spec_well_formed_integer :: "jsvalue \<Rightarrow> bool" where
  "spec_well_formed_integer v =
     (case v of
        JNum n \<Rightarrow> (case number_value n of Fin m k \<Rightarrow> k = 0 | _ \<Rightarrow> False)
      | JStr s \<Rightarrow>
          (let t = trim s
           in if take 1 t = js ''+'' \<or> take 1 t = js ''-'' then numeral_of 10 (drop 1 t) \<noteq> None
              else numeral_of 10 t \<noteq> None)
      | _ \<Rightarrow> False)"

text \<open>
  A sync candidate, in the words of the specification: the item id cell is not empty,
  the desired and the available cell both hold a well-formed integer, and the two
  integers are unequal.
\<close>

definition spec_sync_candidate :: "row \<Rightarrow> bool" where
  "spec_sync_candidate r =
     (cell r 9 \<noteq> JUndefined \<and> cell r 9 \<noteq> JNull \<and> cell r 9 \<noteq> JStr [] \<and>
      spec_well_formed_integer (cell r 4) \<and> spec_well_formed_integer (cell r 5) \<and>
      normalizeInt (cell r 4) \<noteq> normalizeInt (cell r 5))"

text \<open>
  A write that leaves the item id and the available cell of its row alone, and the
  desired cell too unless it empties it: a write to the status, the time stamp or the
  error column, or the empty text to the desired column.
\<close>

fun quiet_write :: "cell_write \<Rightarrow> bool" where
  "quiet_write (Cell_at tab col r, v) =
     (col = col_status \<or> col = col_lastPushedAt \<or> col = col_lastError \<or>
      (col = col_desired \<and> v = []))"
| "quiet_write (Range_AZ tab, v) = True"

text \<open>A sheet whose two data rows both wait for a push that the platform will accept
  (the second after the retry).\<close>

definition pushable_sheet :: "row list" where
  "pushable_sheet =
     [header_row,
      data_row (JNum (Fin 7 0)) (JNum (Fin 10 0)) ''item1'',
      data_row (JNum (Fin 3 0)) (JNum (Fin 4 0)) ''item2'']"

section \<open>Properties\<close>

subsection \<open>Integer parsing\<close>

lemma Math_trunc_sgn: "Math_trunc m k = sgn m * (\<bar>m\<bar> div 10 ^ k)"
  by (cases "m < 0"; cases "m = 0") (simp_all add: Math_trunc_def)

text \<open>
  \<^verbatim>\<open>Number\<close> reads a decimal text as the double nearest to it: a text of many digits
  is rounded, one beyond the largest double is an infinity, one below the smallest is
  zero.
\<close>

lemma Number_reads_the_nearest_double:
  "StringToNumber (js ''7.99999999999999999'') = Fin 8 0"
  "StringToNumber (js ''0.99999999999999999'') = Fin 1 0"
  "StringToNumber (js ''9007199254740993'') = Fin 9007199254740992 0"
  "StringToNumber (js ''1e400'') = PosInf"
  "StringToNumber (js ''-1e400'') = NegInf"
  "StringToNumber (js ''1e-400'') = Fin 0 0"
  "StringToNumber (js ''0.1'') = Fin 1000000000000000055511151231257827021181583404541015625 55"
  "StringToNumber (js ''0x1F'') = Fin 31 0"
  by code_simp+

text \<open>
  \<^verbatim>\<open>String\<close> writes a number with the fewest digits that read back as it, in exponent
  notation from \<open>1e21\<close> on and below \<open>1e-6\<close>.
\<close>

lemma String_of_a_number:
  "NumberToString (Fin 1 1) = ''0.1''"
  "NumberToString (Fin (10 ^ 21) 0) = ''1e+21''"
  "NumberToString (Fin 123456789012345680000 0) = ''123456789012345680000''"
  "NumberToString (Fin 1 7) = ''1e-7''"
  "NumberToString (Fin 1 6) = ''0.000001''"
  "NumberToString (Fin (- 15) 1) = ''-1.5''"
  "NumberToString (Fin 44556677889900 0) = ''44556677889900''"
  by code_simp+

text \<open>
  \<^verbatim>\<open>normalizeInt\<close> on cells of these kinds, and on cells padded with white space that
  is not ASCII (\<open>U+00A0\<close>, \<open>U+FEFF\<close>, \<open>U+2028\<close>, \<open>U+3000\<close>).
\<close>

lemma normalizeInt_examples:
  "normalizeInt (JStr (js ''7.99999999999999999'')) = Some 8"
  "normalizeInt (JStr (js ''1e400'')) = None"
  "normalizeInt (JStr (0xA0 # js ''7'')) = Some 7"
  "normalizeInt (JStr (js ''7'' @ [0xFEFF, 0x2028])) = Some 7"
  "normalizeInt (JStr [0xA0, 0x3000]) = None"
  "normalizeInt (JNum (Fin 79 1)) = Some 7"
  "normalizeInt (JNum (Fin (- 5) 1)) = Some 0"
  "normalizeInt (JBool True) = None"
  by code_simp+

text \<open>
  C10. \<^verbatim>\<open>normalizeInt\<close> returns null exactly for \<^verbatim>\<open>null\<close>, for \<^verbatim>\<open>undefined\<close>, for a
  value whose text is empty after trimming, and for one whose trimmed text \<^verbatim>\<open>Number\<close>
  does not read as a finite number. For a string read as the finite number \<open>m / 10 ^ k\<close>
  it returns that number truncated toward zero, \<open>sgn m * (\<bar>m\<bar> div 10 ^ k)\<close>. So the cell
  \<^verbatim>\<open>"7.9"\<close> is not excluded as malformed: it becomes the integer 7, and a run over a row
  with desired \<^verbatim>\<open>"7.9"\<close> and available 10 sends the conditional set with quantity 7.
\<close>

theorem normalizeInt_null_or_truncated:
  "(normalizeInt v = None \<longleftrightarrow>
      v = JNull \<or> v = JUndefined \<or> trim (ToString v) = [] \<or>
      \<not> isFinite (StringToNumber (trim (ToString v))))
   \<and> (trim s \<noteq> [] \<and> StringToNumber (trim s) = Fin m k \<longrightarrow>
        normalizeInt (JStr s) = Some (sgn m * (\<bar>m\<bar> div 10 ^ k)))
   \<and> normalizeInt (JStr (js ''7.9'')) = Some 7
   \<and> snd (snd (main (sheet_io cas_platform fixed_clock) base_env
        ([header_row, data_row (JStr (js ''7.9'')) (JNum (Fin 10 0)) ''item1''], [(js ''item1'', 10)]))) =
       [ValuesGet (Some ''sheet-1'') (Range_AZ ''Truth_Table''),
        BatchUpdate (Some ''sheet-1'') [(Cell_at ''Truth_Table'' ''G'' 2, ''PENDING'')],
        Fetch ''shop.example'' ''secret''
          (InventorySet (js ''item1'') (Some ''gid://shopify/Location/1'') 7 10),
        BatchUpdate (Some ''sheet-1'')
          [(Cell_at ''Truth_Table'' ''G'' 2, []),
           (Cell_at ''Truth_Table'' ''H'' 2, ''2025-01-01T00:00:00.000Z''),
           (Cell_at ''Truth_Table'' ''I'' 2, []),
           (Cell_at ''Truth_Table'' ''E'' 2, [])]]"
proof -
  have null: "normalizeInt v = None \<longleftrightarrow>
      v = JNull \<or> v = JUndefined \<or> trim (ToString v) = [] \<or>
      \<not> isFinite (StringToNumber (trim (ToString v)))"
    by (cases "StringToNumber (trim (ToString v))") (simp_all add: normalizeInt_def Let_def)
  have trunc: "trim s \<noteq> [] \<and> StringToNumber (trim s) = Fin m k \<longrightarrow>
        normalizeInt (JStr s) = Some (sgn m * (\<bar>m\<bar> div 10 ^ k))"
    by (simp add: normalizeInt_def Let_def Math_trunc_sgn)
  have frac: "normalizeInt (JStr (js ''7.9'')) = Some 7"
    by code_simp
  have run: "snd (snd (main (sheet_io cas_platform fixed_clock) base_env
        ([header_row, data_row (JStr (js ''7.9'')) (JNum (Fin 10 0)) ''item1''], [(js ''item1'', 10)]))) =
       [ValuesGet (Some ''sheet-1'') (Range_AZ ''Truth_Table''),
        BatchUpdate (Some ''sheet-1'') [(Cell_at ''Truth_Table'' ''G'' 2, ''PENDING'')],
        Fetch ''shop.example'' ''secret''
          (InventorySet (js ''item1'') (Some ''gid://shopify/Location/1'') 7 10),
        BatchUpdate (Some ''sheet-1'')
          [(Cell_at ''Truth_Table'' ''G'' 2, []),
           (Cell_at ''Truth_Table'' ''H'' 2, ''2025-01-01T00:00:00.000Z''),
           (Cell_at ''Truth_Table'' ''I'' 2, []),
           (Cell_at ''Truth_Table'' ''E'' 2, [])]]"
    by code_simp
  from null trunc frac run show ?thesis by (intro conjI)
qed

theorem normalizeInt_null_or_truncated_witness:
  "normalizeInt (JStr (js ''N/A'')) = None \<and> trim (js ''  -7.5 '') \<noteq> [] \<and>
   StringToNumber (trim (js ''  -7.5 '')) = Fin (- 75) 1 \<and>
   normalizeInt (JStr (js ''  -7.5 '')) = Some (- 7)"
proof -
  have h: "trim (js ''  -7.5 '') \<noteq> [] \<and>
      StringToNumber (trim (js ''  -7.5 '')) = Fin (- 75) 1"
    by code_simp
  have n: "\<not> isFinite (StringToNumber (trim (ToString (JStr (js ''N/A'')))))"
    by code_simp
  from normalizeInt_null_or_truncated [of "JStr (js ''N/A'')" "js ''  -7.5 ''" "- 75" 1] h n
  show ?thesis by simp
qed

subsection \<open>Run parameters\<close>

lemma requireEnv_missing:
  "env name = None \<or> env name = Some [] \<Longrightarrow>
   requireEnv env name = Inl (Error (''Missing env var: '' @ name))"
  by (auto simp: requireEnv_def)

lemma requireEnv_cases:
  "((env name = None \<or> env name = Some []) \<and>
    requireEnv env name = Inl (Error (''Missing env var: '' @ name))) \<or>
   (\<exists>v. requireEnv env name = Inr v)"
  by (auto simp: requireEnv_def split: option.splits)

text \<open>
  C7, as the claim states it, fails: with the sheet name and the maximum rows per run
  both absent, and the four other parameters present, the run raises no configuration
  error; it reads the rows of the default tab \<^verbatim>\<open>Truth_Table\<close> and writes to them.
\<close>

theorem run_without_sheet_name_and_cap:
  "base_env ''SHEET_NAME'' = None \<and> base_env ''MAX_ROWS_PER_RUN'' = None \<and>
   fst (main (sheet_io cas_platform fixed_clock) base_env
        ([header_row, data_row (JNum (Fin 7 0)) (JNum (Fin 10 0)) ''item1''], [(js ''item1'', 10)])) =
     Inr () \<and>
   snd (snd (main (sheet_io cas_platform fixed_clock) base_env
        ([header_row, data_row (JNum (Fin 7 0)) (JNum (Fin 10 0)) ''item1''], [(js ''item1'', 10)]))) =
       [ValuesGet (Some ''sheet-1'') (Range_AZ ''Truth_Table''),
        BatchUpdate (Some ''sheet-1'') [(Cell_at ''Truth_Table'' ''G'' 2, ''PENDING'')],
        Fetch ''shop.example'' ''secret''
          (InventorySet (js ''item1'') (Some ''gid://shopify/Location/1'') 7 10),
        BatchUpdate (Some ''sheet-1'')
          [(Cell_at ''Truth_Table'' ''G'' 2, []),
           (Cell_at ''Truth_Table'' ''H'' 2, ''2025-01-01T00:00:00.000Z''),
           (Cell_at ''Truth_Table'' ''I'' 2, []),
           (Cell_at ''Truth_Table'' ''E'' 2, [])]]"
  by code_simp

text \<open>
  C7, amended. Four run parameters are required: the spreadsheet identifier, the store
  domain, the location identifier and the access credential. When one of them is unset
  or empty, the run ends with the error \<^verbatim>\<open>Missing env var\<close> naming an unset one, before
  any call is made: no row is read or written and the world is as it was. The sheet
  name and the maximum rows per run are optional: absent, they are \<^verbatim>\<open>Truth_Table\<close>
  and 50.
\<close>

theorem main_requires_four_variables:
  "(name \<in> {''SPREADSHEET_ID'', ''SHOPIFY_STORE_DOMAIN'', ''SHOPIFY_LOCATION_ID'',
             ''SHOPIFY_ADMIN_TOKEN''} \<and> (env name = None \<or> env name = Some []) \<longrightarrow>
      (\<exists>missing. (env missing = None \<or> env missing = Some []) \<and>
         main io env w = (Inl (Error (''Missing env var: '' @ missing)), (w, []))))
   \<and> (env ''SHEET_NAME'' = None \<longrightarrow> sheetName (CONFIG env) = ''Truth_Table'')
   \<and> (env ''MAX_ROWS_PER_RUN'' = None \<longrightarrow> maxRowsPerRun (CONFIG env) = Fin 50 0)"
proof (intro conjI impI)
  assume a: "name \<in> {''SPREADSHEET_ID'', ''SHOPIFY_STORE_DOMAIN'', ''SHOPIFY_LOCATION_ID'',
             ''SHOPIFY_ADMIN_TOKEN''} \<and> (env name = None \<or> env name = Some [])"
  then have miss: "requireEnv env name = Inl (Error (''Missing env var: '' @ name))"
    by (simp add: requireEnv_missing)
  note c1 = requireEnv_cases [of env "''SPREADSHEET_ID''"]
  note c2 = requireEnv_cases [of env "''SHOPIFY_STORE_DOMAIN''"]
  note c3 = requireEnv_cases [of env "''SHOPIFY_LOCATION_ID''"]
  note c4 = requireEnv_cases [of env "''SHOPIFY_ADMIN_TOKEN''"]
  from a miss c1 c2 c3 c4
  show "\<exists>missing. (env missing = None \<or> env missing = Some []) \<and>
         main io env w = (Inl (Error (''Missing env var: '' @ missing)), (w, []))"
    unfolding main_def Let_def by (elim conjE disjE exE) (auto simp del: append.simps)
next
  assume "env ''SHEET_NAME'' = None"
  then show "sheetName (CONFIG env) = ''Truth_Table''"
    by (simp add: CONFIG_def or_default_def)
next
  assume "env ''MAX_ROWS_PER_RUN'' = None"
  then have "maxRowsPerRun (CONFIG env) = StringToNumber (js ''50'')"
    by (simp add: CONFIG_def or_default_def)
  also have "StringToNumber (js ''50'') = Fin 50 0"
    by code_simp
  finally show "maxRowsPerRun (CONFIG env) = Fin 50 0" .
qed

theorem main_requires_four_variables_witness:
  "(\<exists>missing. main (sheet_io cas_platform fixed_clock)
       (base_env(''SHOPIFY_ADMIN_TOKEN'' := None)) ([header_row], []) =
       (Inl (Error (''Missing env var: '' @ missing)), (([header_row], []), []))) \<and>
   sheetName (CONFIG (base_env(''SHOPIFY_ADMIN_TOKEN'' := None))) = ''Truth_Table'' \<and>
   maxRowsPerRun (CONFIG (base_env(''SHOPIFY_ADMIN_TOKEN'' := None))) = Fin 50 0"
proof -
  have unset: "(base_env(''SHOPIFY_ADMIN_TOKEN'' := None)) ''SHOPIFY_ADMIN_TOKEN'' = None"
    by simp
  have sheet: "(base_env(''SHOPIFY_ADMIN_TOKEN'' := None)) ''SHEET_NAME'' = None"
    by (simp add: base_env_def)
  have cap: "(base_env(''SHOPIFY_ADMIN_TOKEN'' := None)) ''MAX_ROWS_PER_RUN'' = None"
    by (simp add: base_env_def)
  from main_requires_four_variables
         [of "''SHOPIFY_ADMIN_TOKEN''" "base_env(''SHOPIFY_ADMIN_TOKEN'' := None)"
             "sheet_io cas_platform fixed_clock" "([header_row], [])"]
       unset sheet cap
  show ?thesis by blast
qed

subsection \<open>Calls of the platform client\<close>


lemma shopifyGraphql_appends:
  assumes "shopifyGraphql io env req (w, tr) = (r, (w', tr'))"
  shows "tr' = tr \<or> (\<exists>d t. tr' = tr @ [Fetch d t req])"
  using assms by (auto split: sum.splits prod.splits)

lemma runOnce_appends:
  assumes "runOnce io env item loc q c (w, tr) = (r, (w', tr'))"
  shows "tr' = tr \<or> (\<exists>d t. tr' = tr @ [Fetch d t (InventorySet item loc q c)])"
proof -
  obtain r0 w0 tr0 where g: "shopifyGraphql io env (InventorySet item loc q c) (w, tr) = (r0, (w0, tr0))"
    by (metis prod.exhaust)
  with assms have "tr' = tr0"
    by (auto simp: runOnce_def split: sum.splits)
  with shopifyGraphql_appends [OF g] show ?thesis by simp
qed

lemma getCurrentAvailableQuantity_appends:
  assumes "getCurrentAvailableQuantity io env item loc (w, tr) = (r, (w', tr'))"
  shows "tr' = tr \<or> (\<exists>d t. tr' = tr @ [Fetch d t (GetInventoryLevel item loc)])"
proof -
  obtain r0 w0 tr0 where g: "shopifyGraphql io env (GetInventoryLevel item loc) (w, tr) = (r0, (w0, tr0))"
    by (metis prod.exhaust)
  with assms have "tr' = tr0"
    by (auto simp: getCurrentAvailableQuantity_def split: sum.splits option.splits)
  with shopifyGraphql_appends [OF g] show ?thesis by simp
qed

lemma shopifyInventorySetAvailable_appends:
  assumes "shopifyInventorySetAvailable io env item loc q c (w, tr) = (r, (w', tr'))"
  shows "\<exists>evs. tr' = tr @ evs \<and> list_all is_fetch evs \<and> length (filter is_set_attempt evs) \<le> 2"
proof -
  obtain r1 w1 tr1 where a1: "runOnce io env item loc q c (w, tr) = (r1, (w1, tr1))"
    by (metis prod.exhaust)
  obtain r2 w2 tr2 where a2: "getCurrentAvailableQuantity io env item loc (w1, tr1) = (r2, (w2, tr2))"
    by (metis prod.exhaust)
  have e1: "tr1 = tr \<or> (\<exists>d t. tr1 = tr @ [Fetch d t (InventorySet item loc q c)])"
    by (rule runOnce_appends [OF a1])
  have e2: "tr2 = tr1 \<or> (\<exists>d t. tr2 = tr1 @ [Fetch d t (GetInventoryLevel item loc)])"
    by (rule getCurrentAvailableQuantity_appends [OF a2])
  define good where "good = (\<lambda>t'. \<exists>evs. t' = tr @ evs \<and> list_all is_fetch evs \<and>
      length (filter is_set_attempt evs) \<le> 2)"
  have g0: "good tr"
    by (simp add: good_def)
  have g1: "good tr1"
    using e1 by (auto simp: good_def)
  have g2: "good tr2"
    using e1 e2 by (auto simp: good_def)
  have g3: "good tr3" if "runOnce io env item loc q cur (w2, tr2) = (r3, (w3, tr3))" for cur r3 w3 tr3
    using runOnce_appends [OF that] e1 e2 by (auto simp: good_def)
  have "tr' = tr \<or> tr' = tr1 \<or> tr' = tr2 \<or>
        (\<exists>cur r3 w3. runOnce io env item loc q cur (w2, tr2) = (r3, (w3, tr')))"
  proof (cases "runOnce io env item loc q (case r2 of Inr cur \<Rightarrow> cur | Inl e \<Rightarrow> 0) (w2, tr2)")
    case (fields r3 w3 tr3)
    with assms a1 a2 show ?thesis
      by (auto simp: shopifyInventorySetAvailable_def split: sum.splits if_splits)
  qed
  with g0 g1 g2 g3 have "good tr'"
    by blast
  then show ?thesis
    by (simp add: good_def)
qed

lemma push_one_appends:
  assumes "push_one io env cfg c (w, tr) = (r, (w', tr'))"
  shows "\<exists>evs. tr' = tr @ evs \<and> list_all is_fetch evs \<and> length (filter is_set_attempt evs) \<le> 2"
proof -
  obtain r1 w1 tr1 where a: "shopifyInventorySetAvailable io env (inventoryItemId c) (locationId cfg)
             (desired c) (available c) (w, tr) = (r1, (w1, tr1))"
    by (metis prod.exhaust)
  with assms have "tr' = tr1"
    by (cases r1; cases "now io w1") (simp_all add: push_one_def)
  with shopifyInventorySetAvailable_appends [OF a] show ?thesis
    by simp
qed

lemma push_all_appends:
  "push_all io env cfg cs ups (w, tr) = (ups', (w', tr')) \<Longrightarrow>
   \<exists>evs. tr' = tr @ evs \<and> list_all is_fetch evs"
proof (induction cs arbitrary: ups w tr)
  case Nil
  then show ?case by simp
next
  case (Cons c cs)
  obtain out w1 tr1 where p: "push_one io env cfg c (w, tr) = (out, (w1, tr1))"
    by (metis prod.exhaust)
  from push_one_appends [OF p] obtain evs1 where e1: "tr1 = tr @ evs1" "list_all is_fetch evs1"
    by blast
  from Cons.prems p
  have "push_all io env cfg cs (ups @ outcome_records cfg c out) (w1, tr1) = (ups', (w', tr'))"
    by simp
  from Cons.IH [OF this] obtain evs2 where e2: "tr' = tr1 @ evs2" "list_all is_fetch evs2"
    by blast
  from e1 e2 have "tr' = tr @ (evs1 @ evs2) \<and> list_all is_fetch (evs1 @ evs2)"
    by simp
  then show ?case
    by blast
qed

lemma length_push_outcomes: "length (push_outcomes io env cfg cs s) = length cs"
proof (induction cs arbitrary: s)
  case Nil
  then show ?case by simp
next
  case (Cons c cs)
  then show ?case
    by (cases "push_one io env cfg c s") simp
qed

lemma push_all_updates:
  "fst (push_all io env cfg cs ups s) =
   ups @ concat (map2 (outcome_records cfg) cs (push_outcomes io env cfg cs s))"
proof (induction cs arbitrary: ups s)
  case Nil
  then show ?case by simp
next
  case (Cons c cs)
  then show ?case
    by (cases "push_one io env cfg c s") simp
qed

subsection \<open>The run, from the loop on\<close>

lemma scan_short: "length rows < 2 \<Longrightarrow> scan cfg rows = []"
  by (cases rows; cases "tl rows") (simp_all add: scan_def)

lemma write_back_eq:
  assumes "values_batchUpdate io w sid0 (pending_records cfg cs) = (Inr u, w1)"
    and "sid0 = spreadsheetId cfg"
  shows "write_back io env cfg cs (w, tr) =
     (case push_all io env cfg cs [] (w1, tr @ [BatchUpdate sid0 (pending_records cfg cs)]) of
        (updates, (w2, tr2)) \<Rightarrow>
          (case values_batchUpdate io w2 sid0 updates of
             (r, w3) \<Rightarrow> (r, (w3, tr2 @ [BatchUpdate sid0 updates]))))"
  using assms by (simp add: write_back_def)

lemma main_loop_entry:
  assumes "loop_entry io env w = Some (cands, s2)"
  shows "main io env w =
     (case push_all io env (CONFIG env) cands [] s2 of
        (updates, (w3, tr3)) \<Rightarrow>
          (case values_batchUpdate io w3 (spreadsheetId (CONFIG env)) updates of
             (r, w4) \<Rightarrow> (r, (w4, tr3 @ [BatchUpdate (spreadsheetId (CONFIG env)) updates]))))"
proof -
  from assms obtain v1 v2 v3 v4 where env:
    "requireEnv env ''SPREADSHEET_ID'' = Inr v1" "requireEnv env ''SHOPIFY_STORE_DOMAIN'' = Inr v2"
    "requireEnv env ''SHOPIFY_LOCATION_ID'' = Inr v3" "requireEnv env ''SHOPIFY_ADMIN_TOKEN'' = Inr v4"
    by (auto simp: loop_entry_def Let_def split: sum.splits)
  define cfg where "cfg = CONFIG env"
  obtain g w1 where get: "values_get io w (spreadsheetId cfg) (Range_AZ (sheetName cfg)) = (g, w1)"
    by (metis prod.exhaust)
  from assms env get obtain vals where g: "g = Inr vals"
    by (cases g) (auto simp: loop_entry_def Let_def cfg_def)
  define rows where "rows = (case vals of None \<Rightarrow> [] | Some vs \<Rightarrow> vs)"
  from assms env get g have ne: "scan cfg rows \<noteq> []"
    by (auto simp: loop_entry_def Let_def cfg_def rows_def split: if_splits)
  obtain p w2 where pend:
    "values_batchUpdate io w1 (spreadsheetId cfg) (pending_records cfg (scan cfg rows)) = (p, w2)"
    by (metis prod.exhaust)
  from assms env get g ne pend have res: "p = Inr ()" "cands = scan cfg rows"
    "s2 = (w2, [ValuesGet (spreadsheetId cfg) (Range_AZ (sheetName cfg)),
                BatchUpdate (spreadsheetId cfg) (pending_records cfg (scan cfg rows))])"
    by (cases p; simp add: loop_entry_def Let_def cfg_def rows_def)+
  from ne have len: "\<not> length rows < 2"
    using scan_short by blast
  have "main io env w = write_back io env cfg (scan cfg rows)
          (w1, [ValuesGet (spreadsheetId cfg) (Range_AZ (sheetName cfg))])"
    using env get g ne len by (simp add: main_def Let_def cfg_def rows_def)
  also have "\<dots> = (case push_all io env cfg cands [] s2 of
        (updates, (w3, tr3)) \<Rightarrow>
          (case values_batchUpdate io w3 (spreadsheetId cfg) updates of
             (r, w4) \<Rightarrow> (r, (w4, tr3 @ [BatchUpdate (spreadsheetId cfg) updates]))))"
    using pend res by (simp add: write_back_eq)
  finally show ?thesis
    by (simp add: cfg_def)
qed

subsection \<open>The scan, and the rows of the candidates\<close>

lemma candidate_at_eq:
  "candidate_at i r =
     (case invItemGid_of r of
        None \<Rightarrow> None
      | Some gid \<Rightarrow>
          if gid = [] then None
          else (case (normalizeInt (cell r 4), normalizeInt (cell r 5)) of
                  (Some d, Some a) \<Rightarrow>
                    if d \<noteq> a then Some \<lparr> rowIndex1Based = i + 1, inventoryItemId = gid,
                          desired = d, available = a \<rparr> else None
                | _ \<Rightarrow> None))"
  by (auto simp: candidate_at_def invItemGid_of_def eligible_def split: option.splits)

lemma scan_rows_capped:
  "scan_rows cap i rows acc = acc @ capped cap (length acc) (all_candidates i rows)"
proof (induction rows arbitrary: i acc)
  case Nil
  then show ?case by simp
next
  case (Cons r rest)
  show ?case
    by (simp add: candidate_at_eq Cons.IH Let_def split: option.splits)
qed

lemma scan_capped: "scan cfg rows = capped (maxRowsPerRun cfg) 0 (all_candidates 1 (drop 1 rows))"
  by (simp add: scan_def scan_rows_capped)

lemma capped_is_take: "\<exists>k. capped cap n cs = take k cs"
proof (induction cs arbitrary: n)
  case Nil
  then show ?case by simp
next
  case (Cons c cs)
  show ?case
  proof (cases "length_ge (n + 1) cap")
    case True
    then have "capped cap n (c # cs) = take 1 (c # cs)" by simp
    then show ?thesis by blast
  next
    case False
    from Cons.IH [of "n + 1"] obtain k where "capped cap (n + 1) cs = take k cs" by blast
    with False have "capped cap n (c # cs) = take (Suc k) (c # cs)" by simp
    then show ?thesis by blast
  qed
qed

lemma capped_take:
  "n < N \<Longrightarrow> capped (Fin (int N) 0) n cs = take (N - n) cs"
proof (induction cs arbitrary: n)
  case Nil
  then show ?case by simp
next
  case (Cons c cs)
  show ?case
  proof (cases "Suc n < N")
    case True
    then have "capped (Fin (int N) 0) (Suc n) cs = take (N - Suc n) cs"
      using Cons.IH by simp
    with True Cons.prems show ?thesis
      by (simp add: take_Cons')
  next
    case False
    with Cons.prems have "N = Suc n" by simp
    then show ?thesis by simp
  qed
qed

lemma candidate_at_row: "candidate_at i r = Some c \<Longrightarrow> rowIndex1Based c = i + 1"
  by (auto simp: candidate_at_def split: option.splits if_splits)

lemma all_candidates_above:
  "c \<in> set (all_candidates i rows) \<Longrightarrow> i < rowIndex1Based c"
proof (induction rows arbitrary: i)
  case Nil
  then show ?case by simp
next
  case (Cons r rest)
  show ?case
  proof (cases "candidate_at i r")
    case None
    with Cons.prems have "c \<in> set (all_candidates (i + 1) rest)" by simp
    from Cons.IH [OF this] show ?thesis by simp
  next
    case (Some c')
    with Cons.prems have "c = c' \<or> c \<in> set (all_candidates (i + 1) rest)" by auto
    then show ?thesis
    proof
      assume "c = c'"
      with Some show ?thesis by (simp add: candidate_at_row)
    next
      assume "c \<in> set (all_candidates (i + 1) rest)"
      from Cons.IH [OF this] show ?thesis by simp
    qed
  qed
qed

lemma all_candidates_sorted:
  "sorted_wrt (<) (map rowIndex1Based (all_candidates i rows))"
proof (induction rows arbitrary: i)
  case Nil
  then show ?case by simp
next
  case (Cons r rest)
  show ?case
  proof (cases "candidate_at i r")
    case None
    then show ?thesis using Cons.IH by simp
  next
    case (Some c')
    then have "rowIndex1Based c' = i + 1" by (rule candidate_at_row)
    moreover have "\<forall>c \<in> set (all_candidates (i + 1) rest). i + 1 < rowIndex1Based c"
      using all_candidates_above by blast
    ultimately show ?thesis using Some Cons.IH by simp
  qed
qed

lemma scan_sorted: "sorted_wrt (<) (map rowIndex1Based (scan cfg rows))"
proof -
  obtain k where "scan cfg rows = take k (all_candidates 1 (drop 1 rows))"
    using capped_is_take scan_capped by metis
  then have "map rowIndex1Based (scan cfg rows) =
      take k (map rowIndex1Based (all_candidates 1 (drop 1 rows)))"
    by (simp add: take_map)
  then show ?thesis
    by (simp add: all_candidates_sorted sorted_wrt_take)
qed

lemma scan_distinct: "distinct (map rowIndex1Based (scan cfg rows))"
  using scan_sorted [of cfg rows] strict_sorted_iff by blast

lemma scan_row_ge_2: "c \<in> set (scan cfg rows) \<Longrightarrow> 2 \<le> rowIndex1Based c"
proof -
  assume c: "c \<in> set (scan cfg rows)"
  obtain k where "scan cfg rows = take k (all_candidates 1 (drop 1 rows))"
    using capped_is_take scan_capped by metis
  with c have "c \<in> set (all_candidates 1 (drop 1 rows))"
    by (metis in_set_takeD)
  from all_candidates_above [OF this] show ?thesis by simp
qed

lemma outcome_records_row:
  "u \<in> set (outcome_records cfg c out) \<Longrightarrow> row_of (fst u) = rowIndex1Based c"
  by (cases out) (auto simp: outcome_records_def)

lemma filter_outcome_records_same:
  "filter (\<lambda>u. row_of (fst u) = rowIndex1Based c) (outcome_records cfg c out) =
   outcome_records cfg c out"
  by (simp add: outcome_records_row)

lemma filter_outcome_records_other:
  "rowIndex1Based c \<noteq> r \<Longrightarrow> filter (\<lambda>u. row_of (fst u) = r) (outcome_records cfg c out) = []"
  by (auto simp: filter_empty_conv dest: outcome_records_row)

lemma filter_row_concat_others:
  "\<forall>p \<in> set ps. rowIndex1Based (fst p) \<noteq> r \<Longrightarrow>
   filter (\<lambda>u. row_of (fst u) = r) (concat (map (\<lambda>(c, out). outcome_records cfg c out) ps)) = []"
proof (induction ps)
  case Nil
  then show ?case by simp
next
  case (Cons p ps)
  obtain c out where p: "p = (c, out)" by (cases p)
  with Cons.prems have "rowIndex1Based c \<noteq> r" by simp
  then have "filter (\<lambda>u. row_of (fst u) = r) (outcome_records cfg c out) = []"
    by (rule filter_outcome_records_other)
  with p Cons show ?case by simp
qed

lemma filter_row_concat:
  assumes "distinct (map rowIndex1Based cs)" and "length outs = length cs" and "i < length cs"
  shows "filter (\<lambda>u. row_of (fst u) = rowIndex1Based (cs ! i))
           (concat (map2 (outcome_records cfg) cs outs)) =
         outcome_records cfg (cs ! i) (outs ! i)"
  using assms
proof (induction cs arbitrary: outs i)
  case Nil
  then show ?case by simp
next
  case (Cons c cs)
  from Cons.prems obtain out outs' where outs: "outs = out # outs'"
    by (cases outs) auto
  show ?case
  proof (cases i)
    case 0
    have "rowIndex1Based c \<notin> rowIndex1Based ` set cs"
      using Cons.prems(1) by simp
    then have "\<forall>c' \<in> set cs. rowIndex1Based c' \<noteq> rowIndex1Based c"
      by (metis imageI)
    then have "\<forall>p \<in> set (zip cs outs'). rowIndex1Based (fst p) \<noteq> rowIndex1Based c"
      by (auto dest: set_zip_leftD)
    then have "filter (\<lambda>u. row_of (fst u) = rowIndex1Based c)
           (concat (map2 (outcome_records cfg) cs outs')) = []"
      by (rule filter_row_concat_others)
    with 0 outs show ?thesis
      by (simp add: filter_outcome_records_same)
  next
    case (Suc j)
    with Cons.prems outs have j: "j < length cs" "length outs' = length cs" "distinct (map rowIndex1Based cs)"
      by auto
    have "rowIndex1Based c \<notin> rowIndex1Based ` set cs"
      using Cons.prems(1) by simp
    with j(1) have "rowIndex1Based c \<noteq> rowIndex1Based (cs ! j)"
      by (metis imageI nth_mem)
    then have "filter (\<lambda>u. row_of (fst u) = rowIndex1Based (cs ! j)) (outcome_records cfg c out) = []"
      by (rule filter_outcome_records_other)
    with Suc outs Cons.IH [OF j(3) j(2) j(1)] show ?thesis
      by simp
  qed
qed

lemma loop_entry_facts:
  assumes "loop_entry io env w = Some (cands, s2)"
  shows "cands \<noteq> []"
    and "\<exists>rows. cands = scan (CONFIG env) rows"
    and "snd s2 = [ValuesGet (spreadsheetId (CONFIG env)) (Range_AZ (sheetName (CONFIG env))),
                   BatchUpdate (spreadsheetId (CONFIG env)) (pending_records (CONFIG env) cands)]"
    and "\<exists>d t l. requireEnv env ''SHOPIFY_STORE_DOMAIN'' = Inr d \<and>
           requireEnv env ''SHOPIFY_ADMIN_TOKEN'' = Inr t \<and>
           requireEnv env ''SHOPIFY_LOCATION_ID'' = Inr l"
proof -
  from assms obtain v1 v2 v3 v4 where env:
    "requireEnv env ''SPREADSHEET_ID'' = Inr v1" "requireEnv env ''SHOPIFY_STORE_DOMAIN'' = Inr v2"
    "requireEnv env ''SHOPIFY_LOCATION_ID'' = Inr v3" "requireEnv env ''SHOPIFY_ADMIN_TOKEN'' = Inr v4"
    by (auto simp: loop_entry_def Let_def split: sum.splits)
  then show "\<exists>d t l. requireEnv env ''SHOPIFY_STORE_DOMAIN'' = Inr d \<and>
           requireEnv env ''SHOPIFY_ADMIN_TOKEN'' = Inr t \<and>
           requireEnv env ''SHOPIFY_LOCATION_ID'' = Inr l"
    by simp
  define cfg where "cfg = CONFIG env"
  obtain g w1 where get: "values_get io w (spreadsheetId cfg) (Range_AZ (sheetName cfg)) = (g, w1)"
    by (metis prod.exhaust)
  from assms env get obtain vals where g: "g = Inr vals"
    by (cases g) (auto simp: loop_entry_def Let_def cfg_def)
  define rows where "rows = (case vals of None \<Rightarrow> [] | Some vs \<Rightarrow> vs)"
  from assms env get g have ne: "scan cfg rows \<noteq> []"
    by (auto simp: loop_entry_def Let_def cfg_def rows_def split: if_splits)
  obtain p w2 where pend:
    "values_batchUpdate io w1 (spreadsheetId cfg) (pending_records cfg (scan cfg rows)) = (p, w2)"
    by (metis prod.exhaust)
  from assms env get g ne pend have res: "p = Inr ()" "cands = scan cfg rows"
    "s2 = (w2, [ValuesGet (spreadsheetId cfg) (Range_AZ (sheetName cfg)),
                BatchUpdate (spreadsheetId cfg) (pending_records cfg (scan cfg rows))])"
    by (cases p; simp add: loop_entry_def Let_def cfg_def rows_def)+
  from res ne show "cands \<noteq> []" by simp
  from res have "cands = scan (CONFIG env) rows" by (simp add: cfg_def)
  then show "\<exists>rows. cands = scan (CONFIG env) rows" by (rule exI)
  from res show "snd s2 = [ValuesGet (spreadsheetId (CONFIG env)) (Range_AZ (sheetName (CONFIG env))),
                   BatchUpdate (spreadsheetId (CONFIG env)) (pending_records (CONFIG env) cands)]"
    by (simp add: cfg_def)
qed

lemma main_trace_loop:
  assumes "loop_entry io env w = Some (cands, s2)"
  shows "\<exists>evs r w4. list_all is_fetch evs \<and>
     main io env w =
       (r, (w4, snd s2 @ evs @
          [BatchUpdate (spreadsheetId (CONFIG env))
             (concat (map2 (outcome_records (CONFIG env)) cands
                (push_outcomes io env (CONFIG env) cands s2)))]))"
proof -
  define cfg where "cfg = CONFIG env"
  obtain updates w3 tr3 where p: "push_all io env cfg cands [] s2 = (updates, (w3, tr3))"
    by (metis prod.exhaust)
  obtain w2 tr2 where s2: "s2 = (w2, tr2)"
    by (cases s2)
  from p s2 have "push_all io env cfg cands [] (w2, tr2) = (updates, (w3, tr3))"
    by simp
  from push_all_appends [OF this] obtain evs where evs: "tr3 = tr2 @ evs" "list_all is_fetch evs"
    by blast
  from p push_all_updates [of io env cfg cands "[]" s2]
  have u: "updates = concat (map2 (outcome_records cfg) cands (push_outcomes io env cfg cands s2))"
    by simp
  obtain r w4 where b: "values_batchUpdate io w3 (spreadsheetId cfg) updates = (r, w4)"
    by (metis prod.exhaust)
  have "main io env w = (r, (w4, tr3 @ [BatchUpdate (spreadsheetId cfg) updates]))"
    unfolding main_loop_entry [OF assms] using p b by (simp add: cfg_def)
  with evs u s2 have "list_all is_fetch evs \<and> main io env w =
       (r, (w4, snd s2 @ evs @
          [BatchUpdate (spreadsheetId (CONFIG env))
             (concat (map2 (outcome_records (CONFIG env)) cands
                (push_outcomes io env (CONFIG env) cands s2)))]))"
    by (simp add: cfg_def)
  then show ?thesis
    by blast
qed

lemma main_trace_no_loop:
  assumes "loop_entry io env w = None"
  shows "list_all (\<lambda>e. \<not> is_fetch e) (snd (snd (main io env w)))"
    and "length (filter is_write (snd (snd (main io env w)))) \<le> 1"
    and "fst (main io env w) = Inr () \<Longrightarrow> filter is_write (snd (snd (main io env w))) = []"
proof -
  define cfg where "cfg = CONFIG env"
  define get where "get = ValuesGet (spreadsheetId cfg) (Range_AZ (sheetName cfg))"
  have "(\<exists>e. main io env w = (Inl e, (w, []))) \<or>
        (\<exists>r w1. main io env w = (r, (w1, [get]))) \<or>
        (\<exists>e w1 ws. main io env w = (Inl e, (w1, [get, BatchUpdate (spreadsheetId cfg) ws])))"
  proof (cases "\<exists>v1 v2 v3 v4. requireEnv env ''SPREADSHEET_ID'' = Inr v1 \<and>
      requireEnv env ''SHOPIFY_STORE_DOMAIN'' = Inr v2 \<and>
      requireEnv env ''SHOPIFY_LOCATION_ID'' = Inr v3 \<and> requireEnv env ''SHOPIFY_ADMIN_TOKEN'' = Inr v4")
    case False
    have "\<exists>e. main io env w = (Inl e, (w, []))"
    proof (cases "requireEnv env ''SPREADSHEET_ID''")
      case (Inl e)
      then show ?thesis by (simp add: main_def Let_def)
    next
      case r1: (Inr v1)
      show ?thesis
      proof (cases "requireEnv env ''SHOPIFY_STORE_DOMAIN''")
        case (Inl e)
        with r1 show ?thesis by (simp add: main_def Let_def)
      next
        case r2: (Inr v2)
        show ?thesis
        proof (cases "requireEnv env ''SHOPIFY_LOCATION_ID''")
          case (Inl e)
          with r1 r2 show ?thesis by (simp add: main_def Let_def)
        next
          case r3: (Inr v3)
          show ?thesis
          proof (cases "requireEnv env ''SHOPIFY_ADMIN_TOKEN''")
            case (Inl e)
            with r1 r2 r3 show ?thesis by (simp add: main_def Let_def)
          next
            case r4: (Inr v4)
            with r1 r2 r3 False show ?thesis by blast
          qed
        qed
      qed
    qed
    then show ?thesis by blast
  next
    case True
    then obtain v1 v2 v3 v4 where env:
      "requireEnv env ''SPREADSHEET_ID'' = Inr v1" "requireEnv env ''SHOPIFY_STORE_DOMAIN'' = Inr v2"
      "requireEnv env ''SHOPIFY_LOCATION_ID'' = Inr v3" "requireEnv env ''SHOPIFY_ADMIN_TOKEN'' = Inr v4"
      by blast
    obtain g w1 where g: "values_get io w (spreadsheetId cfg) (Range_AZ (sheetName cfg)) = (g, w1)"
      by (metis prod.exhaust)
    show ?thesis
    proof (cases g)
      case (Inl e)
      with env g have "main io env w = (Inl e, (w1, [get]))"
        by (simp add: main_def Let_def cfg_def get_def)
      then show ?thesis by blast
    next
      case (Inr vals)
      define rows where "rows = (case vals of None \<Rightarrow> [] | Some vs \<Rightarrow> vs)"
      show ?thesis
      proof (cases "scan cfg rows = []")
        case True
        with env g Inr have "main io env w = (Inr (), (w1, [get]))"
          by (simp add: main_def Let_def cfg_def get_def rows_def)
        then show ?thesis by blast
      next
        case False
        then have len: "\<not> length rows < 2"
          using scan_short by blast
        obtain p w2 where pend:
          "values_batchUpdate io w1 (spreadsheetId cfg) (pending_records cfg (scan cfg rows)) = (p, w2)"
          by (metis prod.exhaust)
        from assms env g Inr False pend obtain e where p: "p = Inl e"
          by (cases p) (simp_all add: loop_entry_def Let_def cfg_def rows_def)
        from env g Inr False len have "main io env w = write_back io env cfg (scan cfg rows) (w1, [get])"
          by (simp add: main_def Let_def cfg_def rows_def get_def)
        with pend p have "main io env w =
            (Inl e, (w2, [get, BatchUpdate (spreadsheetId cfg) (pending_records cfg (scan cfg rows))]))"
          by (simp add: write_back_def)
        then show ?thesis by blast
      qed
    qed
  qed
  then consider (a) e where "main io env w = (Inl e, (w, []))"
    | (b) r w1 where "main io env w = (r, (w1, [get]))"
    | (c) e w1 ws where "main io env w = (Inl e, (w1, [get, BatchUpdate (spreadsheetId cfg) ws]))"
    by blast
  then have "list_all (\<lambda>e. \<not> is_fetch e) (snd (snd (main io env w))) \<and>
    length (filter is_write (snd (snd (main io env w)))) \<le> 1 \<and>
    (fst (main io env w) = Inr () \<longrightarrow> filter is_write (snd (snd (main io env w))) = [])"
    by cases (simp_all add: get_def)
  then show "list_all (\<lambda>e. \<not> is_fetch e) (snd (snd (main io env w)))"
    and "length (filter is_write (snd (snd (main io env w)))) \<le> 1"
    and "fst (main io env w) = Inr () \<Longrightarrow> filter is_write (snd (snd (main io env w))) = []"
    by simp_all
qed

subsection \<open>The two bulk writes\<close>

lemma push_outcomes_nth:
  "i < length cs \<Longrightarrow>
   push_outcomes io env cfg cs s ! i =
   fst (push_one io env cfg (cs ! i) (snd (push_all io env cfg (take i cs) ups s)))"
proof (induction cs arbitrary: i ups s)
  case Nil
  then show ?case by simp
next
  case (Cons c cs)
  obtain out s1 where p: "push_one io env cfg c s = (out, s1)"
    by (cases "push_one io env cfg c s")
  show ?case
  proof (cases i)
    case 0
    with p show ?thesis by simp
  next
    case (Suc j)
    with Cons.prems have "j < length cs" by simp
    from Cons.IH [OF this, of s1 "ups @ outcome_records cfg c out"] Suc p
    show ?thesis by simp
  qed
qed

lemma push_one_success:
  assumes "shopifyInventorySetAvailable io env (inventoryItemId c) (locationId cfg)
             (desired c) (available c) s = (Inr u, (w1, tr1))"
    and "now io w1 = (t, w2)"
  shows "push_one io env cfg c s = (Inr t, (w2, tr1))"
  using assms by (simp add: push_one_def)


lemma col_distinct:
  "col_status \<noteq> col_lastPushedAt" "col_status \<noteq> col_lastError" "col_status \<noteq> col_desired"
  "col_available \<noteq> col_status" "col_available \<noteq> col_lastPushedAt"
  "col_available \<noteq> col_lastError" "col_available \<noteq> col_desired"
  "col_desired \<noteq> col_lastPushedAt" "col_desired \<noteq> col_lastError"
  by (simp_all add: col_status_def col_lastPushedAt_def col_lastError_def col_desired_def
        col_available_def)

lemma outcome_records_columns:
  "u \<in> set (outcome_records cfg c out) \<Longrightarrow>
   column_of (fst u) \<in> {col_status, col_lastPushedAt, col_lastError, col_desired}"
  by (cases out) (auto simp: outcome_records_def)

lemma outcome_records_status:
  "(Cell_at tab col_status r, v) \<in> set (outcome_records cfg c out) \<Longrightarrow> v = [] \<or> v = ''ERROR''"
  using col_distinct by (cases out) (auto simp: outcome_records_def)

lemma outcome_records_status_filter:
  "\<exists>v. filter (\<lambda>u. fst u = Cell_at (sheetName cfg) col_status (rowIndex1Based c))
         (outcome_records cfg c out) = [(Cell_at (sheetName cfg) col_status (rowIndex1Based c), v)]
       \<and> (v = [] \<or> v = ''ERROR'')"
  using col_distinct by (cases out) (auto simp: outcome_records_def)

lemma concat_records_elem:
  assumes "u \<in> set (concat (map2 (outcome_records cfg) cs outs))"
  shows "\<exists>c out. c \<in> set cs \<and> u \<in> set (outcome_records cfg c out)"
proof -
  from assms obtain p where "p \<in> set (zip cs outs)" "u \<in> set (outcome_records cfg (fst p) (snd p))"
    by (auto simp: case_prod_beta)
  then show ?thesis
    by (metis set_zip_leftD prod.collapse)
qed

lemma pending_records_elem:
  "u \<in> set (pending_records cfg cs) \<longleftrightarrow>
   (\<exists>c \<in> set cs. u = (Cell_at (sheetName cfg) col_status (rowIndex1Based c), ''PENDING''))"
  by (auto simp: pending_records_def)

text \<open>The shape of the trace of a run that enters the loop.\<close>

lemma main_trace_shape:
  assumes "loop_entry io env w = Some (cands, s2)"
  shows "\<exists>evs. list_all is_fetch evs \<and>
     snd (snd (main io env w)) =
       [ValuesGet (spreadsheetId (CONFIG env)) (Range_AZ (sheetName (CONFIG env))),
        BatchUpdate (spreadsheetId (CONFIG env)) (pending_records (CONFIG env) cands)] @ evs @
       [BatchUpdate (spreadsheetId (CONFIG env)) (fst (push_all io env (CONFIG env) cands [] s2))]"
proof -
  from main_trace_loop [OF assms] obtain evs r w4 where
    "list_all is_fetch evs" and
    "main io env w =
       (r, (w4, snd s2 @ evs @
          [BatchUpdate (spreadsheetId (CONFIG env))
             (concat (map2 (outcome_records (CONFIG env)) cands
                (push_outcomes io env (CONFIG env) cands s2)))]))"
    by blast
  then have "list_all is_fetch evs \<and>
     snd (snd (main io env w)) =
       [ValuesGet (spreadsheetId (CONFIG env)) (Range_AZ (sheetName (CONFIG env))),
        BatchUpdate (spreadsheetId (CONFIG env)) (pending_records (CONFIG env) cands)] @ evs @
       [BatchUpdate (spreadsheetId (CONFIG env)) (fst (push_all io env (CONFIG env) cands [] s2))]"
    by (simp add: loop_entry_facts(3) [OF assms] push_all_updates)
  then show ?thesis
    by blast
qed

text \<open>
  C8. A run that finds at least one candidate and whose bulk write of the PENDING marks
  returns makes exactly two bulk writes: after the read of the rows, the first call
  writes PENDING to the status cell of every candidate, before any request to the
  platform; then come requests to the platform only (no write for a single candidate);
  the last call writes the \<^verbatim>\<open>updates\<close> that the loop collected, after every candidate
  has been processed. A run that does not get that far makes no request to the platform
  and at most one bulk write.
\<close>

theorem two_bulk_writes:
  "(loop_entry io env w = Some (cands, s2) \<longrightarrow>
      (\<exists>evs. list_all is_fetch evs \<and>
         snd (snd (main io env w)) =
           [ValuesGet (spreadsheetId (CONFIG env)) (Range_AZ (sheetName (CONFIG env))),
            BatchUpdate (spreadsheetId (CONFIG env))
              (map (\<lambda>c. (Cell_at (sheetName (CONFIG env)) col_status (rowIndex1Based c), ''PENDING''))
                 cands)] @ evs @
           [BatchUpdate (spreadsheetId (CONFIG env))
              (fst (push_all io env (CONFIG env) cands [] s2))]))
   \<and> (loop_entry io env w = None \<longrightarrow>
        list_all (\<lambda>e. \<not> is_fetch e) (snd (snd (main io env w))) \<and>
        length (filter is_write (snd (snd (main io env w)))) \<le> 1)"
proof (intro conjI impI)
  assume "loop_entry io env w = Some (cands, s2)"
  from main_trace_shape [OF this]
  show "\<exists>evs. list_all is_fetch evs \<and>
         snd (snd (main io env w)) =
           [ValuesGet (spreadsheetId (CONFIG env)) (Range_AZ (sheetName (CONFIG env))),
            BatchUpdate (spreadsheetId (CONFIG env))
              (map (\<lambda>c. (Cell_at (sheetName (CONFIG env)) col_status (rowIndex1Based c), ''PENDING''))
                 cands)] @ evs @
           [BatchUpdate (spreadsheetId (CONFIG env))
              (fst (push_all io env (CONFIG env) cands [] s2))]"
    by (simp add: pending_records_def)
next
  assume n: "loop_entry io env w = None"
  from main_trace_no_loop(1) [OF n]
  show "list_all (\<lambda>e. \<not> is_fetch e) (snd (snd (main io env w)))" .
  from main_trace_no_loop(2) [OF n]
  show "length (filter is_write (snd (snd (main io env w)))) \<le> 1" .
qed

theorem two_bulk_writes_witness:
  "\<exists>evs. list_all is_fetch evs \<and>
     snd (snd (main (sheet_io cas_platform fixed_clock) base_env (example_sheet, example_platform))) =
       [ValuesGet (Some ''sheet-1'') (Range_AZ ''Truth_Table''),
        BatchUpdate (Some ''sheet-1'')
          [(Cell_at ''Truth_Table'' ''G'' 2, ''PENDING''),
           (Cell_at ''Truth_Table'' ''G'' 3, ''PENDING''),
           (Cell_at ''Truth_Table'' ''G'' 4, ''PENDING'')]] @ evs @
       [BatchUpdate (Some ''sheet-1'')
          [(Cell_at ''Truth_Table'' ''G'' 2, []),
           (Cell_at ''Truth_Table'' ''H'' 2, ''2025-01-01T00:00:00.000Z''),
           (Cell_at ''Truth_Table'' ''I'' 2, []),
           (Cell_at ''Truth_Table'' ''E'' 2, []),
           (Cell_at ''Truth_Table'' ''G'' 3, []),
           (Cell_at ''Truth_Table'' ''H'' 3, ''2025-01-01T00:00:00.000Z''),
           (Cell_at ''Truth_Table'' ''I'' 3, []),
           (Cell_at ''Truth_Table'' ''E'' 3, []),
           (Cell_at ''Truth_Table'' ''G'' 4, ''ERROR''),
           (Cell_at ''Truth_Table'' ''I'' 4,
              ''Shopify userErrors: '' @ stringify_userErrors [unknown_item_error])]]"
proof -
  let ?io = "sheet_io cas_platform fixed_clock"
  let ?cands = "[\<lparr>rowIndex1Based = 2, inventoryItemId = js ''item1'', desired = 7, available = 10\<rparr>,
     \<lparr>rowIndex1Based = 3, inventoryItemId = js ''item2'', desired = 3, available = 4\<rparr>,
     \<lparr>rowIndex1Based = 4, inventoryItemId = js ''ghost'', desired = 5, available = 6\<rparr>]"
  let ?pend = "[(Cell_at ''Truth_Table'' ''G'' 2, ''PENDING''),
           (Cell_at ''Truth_Table'' ''G'' 3, ''PENDING''),
           (Cell_at ''Truth_Table'' ''G'' 4, ''PENDING'')]"
  let ?s2 = "((apply_writes example_sheet ?pend, example_platform),
     [ValuesGet (Some ''sheet-1'') (Range_AZ ''Truth_Table''), BatchUpdate (Some ''sheet-1'') ?pend])"
  have le: "loop_entry ?io base_env (example_sheet, example_platform) = Some (?cands, ?s2)"
    by code_simp
  have cfg: "spreadsheetId (CONFIG base_env) = Some ''sheet-1''" "sheetName (CONFIG base_env) = ''Truth_Table''"
    by code_simp+
  have ups: "fst (push_all ?io base_env (CONFIG base_env) ?cands [] ?s2) =
          [(Cell_at ''Truth_Table'' ''G'' 2, []),
           (Cell_at ''Truth_Table'' ''H'' 2, ''2025-01-01T00:00:00.000Z''),
           (Cell_at ''Truth_Table'' ''I'' 2, []),
           (Cell_at ''Truth_Table'' ''E'' 2, []),
           (Cell_at ''Truth_Table'' ''G'' 3, []),
           (Cell_at ''Truth_Table'' ''H'' 3, ''2025-01-01T00:00:00.000Z''),
           (Cell_at ''Truth_Table'' ''I'' 3, []),
           (Cell_at ''Truth_Table'' ''E'' 3, []),
           (Cell_at ''Truth_Table'' ''G'' 4, ''ERROR''),
           (Cell_at ''Truth_Table'' ''I'' 4,
              ''Shopify userErrors: '' @ stringify_userErrors [unknown_item_error])]"
    by code_simp
  from two_bulk_writes [of ?io base_env "(example_sheet, example_platform)" ?cands ?s2] le
  show ?thesis
    by (simp add: cfg ups col_status_def del: push_all.simps)
qed

subsection \<open>The records of a candidate\<close>




lemma updates_row_records:
  assumes le: "loop_entry io env w = Some (cands, s2)"
    and i: "i < length cands"
  shows "filter (\<lambda>u. row_of (fst u) = rowIndex1Based (cands ! i))
           (fst (push_all io env (CONFIG env) cands [] s2)) =
         outcome_records (CONFIG env) (cands ! i)
           (fst (push_one io env (CONFIG env) (cands ! i)
                  (snd (push_all io env (CONFIG env) (take i cands) [] s2))))"
proof -
  from loop_entry_facts(2) [OF le] have dist: "distinct (map rowIndex1Based cands)"
    using scan_distinct by blast
  have "filter (\<lambda>u. row_of (fst u) = rowIndex1Based (cands ! i))
           (concat (map2 (outcome_records (CONFIG env)) cands
              (push_outcomes io env (CONFIG env) cands s2))) =
        outcome_records (CONFIG env) (cands ! i) (push_outcomes io env (CONFIG env) cands s2 ! i)"
    by (rule filter_row_concat [OF dist _ i]) (simp add: length_push_outcomes)
  then show ?thesis
    by (simp add: push_all_updates push_outcomes_nth [OF i, of io env "CONFIG env" s2 "[]"])
qed

lemma main_last_event:
  assumes "loop_entry io env w = Some (cands, s2)"
  shows "last (snd (snd (main io env w))) =
     BatchUpdate (spreadsheetId (CONFIG env)) (fst (push_all io env (CONFIG env) cands [] s2))"
  using main_trace_shape [OF assms] by auto

lemma main_writes:
  assumes le: "loop_entry io env w = Some (cands, s2)"
    and b: "BatchUpdate sid ws \<in> set (snd (snd (main io env w)))"
  shows "sid = spreadsheetId (CONFIG env) \<and>
     (ws = pending_records (CONFIG env) cands \<or> ws = fst (push_all io env (CONFIG env) cands [] s2))"
proof -
  from main_trace_shape [OF le] obtain evs where evs: "list_all is_fetch evs" and
    tr: "snd (snd (main io env w)) =
       [ValuesGet (spreadsheetId (CONFIG env)) (Range_AZ (sheetName (CONFIG env))),
        BatchUpdate (spreadsheetId (CONFIG env)) (pending_records (CONFIG env) cands)] @ evs @
       [BatchUpdate (spreadsheetId (CONFIG env)) (fst (push_all io env (CONFIG env) cands [] s2))]"
    by blast
  from evs have "BatchUpdate sid ws \<notin> set evs"
    by (auto simp: list_all_iff)
  with b tr show ?thesis
    by auto
qed

lemma updates_columns:
  assumes "u \<in> set (fst (push_all io env cfg cs [] s))"
  shows "column_of (fst u) \<in> {col_status, col_lastPushedAt, col_lastError, col_desired}"
proof -
  from assms have "u \<in> set (concat (map2 (outcome_records cfg) cs (push_outcomes io env cfg cs s)))"
    by (simp add: push_all_updates)
  from concat_records_elem [OF this] obtain c out where "u \<in> set (outcome_records cfg c out)"
    by blast
  then show ?thesis
    by (rule outcome_records_columns)
qed

lemma updates_status_values:
  assumes "(Cell_at tab col_status r, v) \<in> set (fst (push_all io env cfg cs [] s))"
  shows "v = [] \<or> v = ''ERROR''"
proof -
  from assms have "(Cell_at tab col_status r, v) \<in>
      set (concat (map2 (outcome_records cfg) cs (push_outcomes io env cfg cs s)))"
    by (simp add: push_all_updates)
  from concat_records_elem [OF this] obtain c out where
    "(Cell_at tab col_status r, v) \<in> set (outcome_records cfg c out)"
    by blast
  then show ?thesis
    by (rule outcome_records_status)
qed

lemma main_no_available_write:
  assumes le: "loop_entry io env w = Some (cands, s2)"
    and b: "BatchUpdate sid ws \<in> set (snd (snd (main io env w)))"
    and u: "u \<in> set ws"
  shows "column_of (fst u) \<noteq> col_available"
proof -
  from main_writes [OF le b]
  have "ws = pending_records (CONFIG env) cands \<or> ws = fst (push_all io env (CONFIG env) cands [] s2)"
    by simp
  then show ?thesis
  proof
    assume "ws = pending_records (CONFIG env) cands"
    with u have "column_of (fst u) = col_status"
      by (auto simp: pending_records_def)
    with col_distinct show ?thesis by simp
  next
    assume "ws = fst (push_all io env (CONFIG env) cands [] s2)"
    with u updates_columns
    have "column_of (fst u) \<in> {col_status, col_lastPushedAt, col_lastError, col_desired}"
      by blast
    with col_distinct show ?thesis by auto
  qed
qed

text \<open>
  C3. When the conditional set of the candidate at position \<open>i\<close> succeeds (in the state
  the loop has reached after the candidates before it) and the clock then reads \<open>t\<close>,
  the writes of the outcome batch to that candidate's row are exactly: status emptied,
  \<^verbatim>\<open>lastPushedAt\<close> set to \<open>t\<close>, \<^verbatim>\<open>lastError\<close> emptied, \<^verbatim>\<open>desiredAvailable\<close> emptied. No
  bulk write of the run touches the column of \<^verbatim>\<open>available\<close>.
\<close>

theorem success_records:
  assumes "loop_entry io env w = Some (cands, s2)"
    and "i < length cands"
    and "c = cands ! i"
    and "cfg = CONFIG env"
    and "shopifyInventorySetAvailable io env (inventoryItemId c) (locationId cfg)
           (desired c) (available c) (snd (push_all io env cfg (take i cands) [] s2)) =
         (Inr (), (w1, tr1))"
    and "now io w1 = (t, w1')"
  shows "\<exists>updates. last (snd (snd (main io env w))) = BatchUpdate (spreadsheetId cfg) updates \<and>
     filter (\<lambda>u. row_of (fst u) = rowIndex1Based c) updates =
       [(Cell_at (sheetName cfg) col_status (rowIndex1Based c), []),
        (Cell_at (sheetName cfg) col_lastPushedAt (rowIndex1Based c), t),
        (Cell_at (sheetName cfg) col_lastError (rowIndex1Based c), []),
        (Cell_at (sheetName cfg) col_desired (rowIndex1Based c), [])] \<and>
     (\<forall>sid ws u. BatchUpdate sid ws \<in> set (snd (snd (main io env w))) \<and> u \<in> set ws \<longrightarrow>
        column_of (fst u) \<noteq> col_available)"
proof -
  define updates where "updates = fst (push_all io env cfg cands [] s2)"
  have last: "last (snd (snd (main io env w))) = BatchUpdate (spreadsheetId cfg) updates"
    using main_last_event [OF assms(1)] by (simp add: updates_def assms(4))
  have "push_one io env cfg c (snd (push_all io env cfg (take i cands) [] s2)) = (Inr t, (w1', tr1))"
    by (rule push_one_success [OF assms(5) assms(6)])
  with updates_row_records [OF assms(1) assms(2)]
  have rows: "filter (\<lambda>u. row_of (fst u) = rowIndex1Based c) updates =
       [(Cell_at (sheetName cfg) col_status (rowIndex1Based c), []),
        (Cell_at (sheetName cfg) col_lastPushedAt (rowIndex1Based c), t),
        (Cell_at (sheetName cfg) col_lastError (rowIndex1Based c), []),
        (Cell_at (sheetName cfg) col_desired (rowIndex1Based c), [])]"
    by (simp add: updates_def assms(3) assms(4) outcome_records_def)
  have "\<forall>sid ws u. BatchUpdate sid ws \<in> set (snd (snd (main io env w))) \<and> u \<in> set ws \<longrightarrow>
        column_of (fst u) \<noteq> col_available"
    using main_no_available_write [OF assms(1)] by blast
  with last rows show ?thesis
    by blast
qed

theorem success_records_witness:
  "\<exists>updates.
     last (snd (snd (main (sheet_io cas_platform fixed_clock) base_env
       (example_sheet, example_platform)))) = BatchUpdate (Some ''sheet-1'') updates \<and>
     filter (\<lambda>u. row_of (fst u) = 2) updates =
       [(Cell_at ''Truth_Table'' ''G'' 2, []),
        (Cell_at ''Truth_Table'' ''H'' 2, ''2025-01-01T00:00:00.000Z''),
        (Cell_at ''Truth_Table'' ''I'' 2, []),
        (Cell_at ''Truth_Table'' ''E'' 2, [])]"
proof -
  let ?io = "sheet_io cas_platform fixed_clock"
  let ?cands = "[\<lparr>rowIndex1Based = 2, inventoryItemId = js ''item1'', desired = 7, available = 10\<rparr>,
     \<lparr>rowIndex1Based = 3, inventoryItemId = js ''item2'', desired = 3, available = 4\<rparr>,
     \<lparr>rowIndex1Based = 4, inventoryItemId = js ''ghost'', desired = 5, available = 6\<rparr>]"
  let ?pend = "[(Cell_at ''Truth_Table'' ''G'' 2, ''PENDING''),
           (Cell_at ''Truth_Table'' ''G'' 3, ''PENDING''),
           (Cell_at ''Truth_Table'' ''G'' 4, ''PENDING'')]"
  let ?tr2 = "[ValuesGet (Some ''sheet-1'') (Range_AZ ''Truth_Table''), BatchUpdate (Some ''sheet-1'') ?pend]"
  let ?s2 = "((apply_writes example_sheet ?pend, example_platform), ?tr2)"
  let ?w1 = "(apply_writes example_sheet ?pend, (js ''item1'', 7) # example_platform)"
  let ?tr1 = "?tr2 @ [Fetch ''shop.example'' ''secret''
     (InventorySet (js ''item1'') (Some ''gid://shopify/Location/1'') 7 10)]"
  have le: "loop_entry ?io base_env (example_sheet, example_platform) = Some (?cands, ?s2)"
    by code_simp
  have i: "0 < length ?cands"
    by simp
  have sia: "shopifyInventorySetAvailable ?io base_env (inventoryItemId (?cands ! 0))
      (locationId (CONFIG base_env)) (desired (?cands ! 0)) (available (?cands ! 0))
      (snd (push_all ?io base_env (CONFIG base_env) (take 0 ?cands) [] ?s2)) = (Inr (), (?w1, ?tr1))"
    by code_simp
  have nw: "now ?io ?w1 = (''2025-01-01T00:00:00.000Z'', ?w1)"
    by code_simp
  have cfg: "spreadsheetId (CONFIG base_env) = Some ''sheet-1''" "sheetName (CONFIG base_env) = ''Truth_Table''"
    by code_simp+
  from success_records [OF le i refl refl sia nw]
  show ?thesis
    by (simp add: cfg col_status_def col_lastPushedAt_def col_lastError_def col_desired_def
          del: push_all.simps) blast
qed



text \<open>
  C9. In a run that completes normally, for every row whose status a bulk write of the
  run sets to PENDING, the last call of the run is a bulk write holding exactly one
  write to the status cell of that row, and its value is empty or \<^verbatim>\<open>ERROR\<close>.
\<close>

theorem pending_overwritten:
  assumes "main io env w = (Inr (), (w', tr))"
    and "BatchUpdate sid ws \<in> set tr"
    and "(Cell_at tab col_status r, ''PENDING'') \<in> set ws"
  shows "\<exists>updates v. last tr = BatchUpdate sid updates \<and>
     filter (\<lambda>u. fst u = Cell_at tab col_status r) updates = [(Cell_at tab col_status r, v)] \<and>
     (v = [] \<or> v = ''ERROR'')"
proof -
  have tr: "tr = snd (snd (main io env w))"
    using assms(1) by simp
  have "loop_entry io env w \<noteq> None"
  proof
    assume "loop_entry io env w = None"
    from main_trace_no_loop(3) [OF this] assms(1) have "filter is_write tr = []"
      by simp
    with assms(2) show False
      by (auto simp: filter_empty_conv)
  qed
  then obtain cands s2 where le: "loop_entry io env w = Some (cands, s2)"
    by auto
  define cfg where "cfg = CONFIG env"
  define updates where "updates = fst (push_all io env cfg cands [] s2)"
  from main_writes [OF le] assms(2) tr
  have sid: "sid = spreadsheetId cfg" and ws: "ws = pending_records cfg cands \<or> ws = updates"
    by (simp_all add: cfg_def updates_def)
  have "ws \<noteq> updates"
  proof
    assume "ws = updates"
    with assms(3) updates_status_values [of tab r "''PENDING''" io env cfg cands s2]
    show False
      by (simp add: updates_def)
  qed
  with ws assms(3) obtain c0 where c0: "c0 \<in> set cands" "tab = sheetName cfg" "r = rowIndex1Based c0"
    by (auto simp: pending_records_elem)
  then obtain i where i: "i < length cands" "c0 = cands ! i"
    by (auto simp: in_set_conv_nth)
  define out where "out = fst (push_one io env cfg c0 (snd (push_all io env cfg (take i cands) [] s2)))"
  from updates_row_records [OF le i(1)] i(2)
  have rows: "filter (\<lambda>u. row_of (fst u) = rowIndex1Based c0) updates = outcome_records cfg c0 out"
    by (simp add: updates_def cfg_def out_def)
  have "filter (\<lambda>u. fst u = Cell_at tab col_status r) updates =
        filter (\<lambda>u. fst u = Cell_at tab col_status r)
          (filter (\<lambda>u. row_of (fst u) = rowIndex1Based c0) updates)"
    using c0(3) by (auto simp: filter_filter intro: filter_cong)
  with rows have "filter (\<lambda>u. fst u = Cell_at tab col_status r) updates =
        filter (\<lambda>u. fst u = Cell_at (sheetName cfg) col_status (rowIndex1Based c0))
          (outcome_records cfg c0 out)"
    using c0 by simp
  with outcome_records_status_filter [of cfg c0 out] obtain v where
    "filter (\<lambda>u. fst u = Cell_at tab col_status r) updates = [(Cell_at tab col_status r, v)]"
    "v = [] \<or> v = ''ERROR''"
    using c0 by auto
  moreover have "last tr = BatchUpdate sid updates"
    using main_last_event [OF le] tr sid by (simp add: updates_def cfg_def)
  ultimately show ?thesis
    by blast
qed

theorem pending_overwritten_witness:
  "\<exists>updates v.
     last (snd (snd (main (sheet_io cas_platform fixed_clock) base_env
       ([header_row, data_row (JNum (Fin 5 0)) (JNum (Fin 6 0)) ''ghost''], [])))) =
       BatchUpdate (Some ''sheet-1'') updates \<and>
     filter (\<lambda>u. fst u = Cell_at ''Truth_Table'' ''G'' 2) updates = [(Cell_at ''Truth_Table'' ''G'' 2, v)] \<and>
     (v = [] \<or> v = ''ERROR'')"
proof -
  let ?io = "sheet_io cas_platform fixed_clock"
  let ?sheet = "[header_row, data_row (JNum (Fin 5 0)) (JNum (Fin 6 0)) ''ghost'']"
  let ?run = "main ?io base_env (?sheet, [])"
  let ?pend = "[(Cell_at ''Truth_Table'' ''G'' 2, ''PENDING'')]"
  have ok: "fst ?run = Inr ()"
    by code_simp
  then have run: "?run = (Inr (), (fst (snd ?run), snd (snd ?run)))"
    by (metis prod.collapse)
  have "snd (snd ?run) ! 1 = BatchUpdate (Some ''sheet-1'') ?pend" "1 < length (snd (snd ?run))"
    by code_simp+
  then have b: "BatchUpdate (Some ''sheet-1'') ?pend \<in> set (snd (snd ?run))"
    by (metis nth_mem)
  have p: "(Cell_at ''Truth_Table'' col_status 2, ''PENDING'') \<in> set ?pend"
    by (simp add: col_status_def)
  from pending_overwritten [OF run b p]
  show ?thesis
    by (simp add: col_status_def)
qed

subsection \<open>The retry\<close>





subsection \<open>Writes to the row store\<close>

lemma normalizeInt_empty [simp]: "normalizeInt (JStr []) = None" "normalizeInt JUndefined = None"
  by (simp_all add: normalizeInt_def trim_def)

lemma js_Nil [simp]: "js [] = []"
  by (simp add: js_def)

lemma length_pad: "length (pad n x xs) = max (length xs) n"
  by (simp add: pad_def)

lemma nth_pad: "k < length (pad n x xs) \<Longrightarrow> pad n x xs ! k = (if k < length xs then xs ! k else x)"
  by (auto simp: pad_def nth_append)

lemma cell_written:
  "cell ((pad (Suc ci) (JStr []) r)[ci := JStr v]) k =
     (if k = ci then JStr v
      else if k < length r then r ! k
      else if k \<le> ci then JStr [] else JUndefined)"
  by (auto simp: cell_def length_pad nth_pad)

lemma eligible_cells:
  assumes "normalizeInt (cell r' 4) = normalizeInt (cell r 4)"
    and "normalizeInt (cell r' 5) = normalizeInt (cell r 5)"
    and "cell r' 9 = cell r 9 \<or> (\<not> truthy (cell r' 9) \<and> \<not> truthy (cell r 9))"
  shows "eligible r' = eligible r"
  using assms by (auto simp: eligible_def)

lemma eligible_write_other:
  assumes "ci \<noteq> 4" "ci \<noteq> 5" "ci \<noteq> 9"
  shows "eligible ((pad (Suc ci) (JStr []) r)[ci := JStr v]) = eligible r"
proof (rule eligible_cells)
  have c: "cell r k = (if k < length r then r ! k else JUndefined)" for k
    by (simp add: cell_def)
  show "normalizeInt (cell ((pad (Suc ci) (JStr []) r)[ci := JStr v]) 4) = normalizeInt (cell r 4)"
    using assms by (simp add: cell_written c)
  show "normalizeInt (cell ((pad (Suc ci) (JStr []) r)[ci := JStr v]) 5) = normalizeInt (cell r 5)"
    using assms by (simp add: cell_written c)
  show "cell ((pad (Suc ci) (JStr []) r)[ci := JStr v]) 9 = cell r 9 \<or>
      (\<not> truthy (cell ((pad (Suc ci) (JStr []) r)[ci := JStr v]) 9) \<and> \<not> truthy (cell r 9))"
    using assms by (simp add: cell_written c)
qed

lemma eligible_clear_desired: "\<not> eligible ((pad (Suc 4) (JStr []) r)[4 := JStr []])"
proof -
  have "cell ((pad (Suc 4) (JStr []) r)[4 := JStr []]) 4 = JStr []"
    by (simp only: cell_written) simp
  then show ?thesis
    by (simp only: eligible_def normalizeInt_empty) simp
qed

lemma row_at_write_cell:
  assumes "1 \<le> r"
  shows "row_at (write_cell g ci r v) j =
     (if j = r - 1 then (pad (Suc ci) (JStr []) (row_at g j))[ci := JStr (js v)] else row_at g j)"
proof -
  have g1: "pad r [] g ! k = row_at g k" if "k < length (pad r [] g)" for k
    using that by (simp add: nth_pad row_at_def)
  have len: "length (pad r [] g) = max (length g) r"
    by (rule length_pad)
  show ?thesis
  proof (cases "j < length (pad r [] g)")
    case True
    with assms g1 [of j] g1 [of "r - 1"] len show ?thesis
      by (auto simp: write_cell_def row_at_def Let_def)
  next
    case False
    with assms len show ?thesis
      by (auto simp: write_cell_def row_at_def Let_def)
  qed
qed

lemma column_indices:
  "column_index col_status = 6" "column_index col_lastPushedAt = 7"
  "column_index col_lastError = 8" "column_index col_desired = 4"
  by code_simp+

lemma eligible_row_at_Nil [simp]: "\<not> eligible []"
  by (simp add: eligible_def cell_def)

lemma apply_write_mono:
  assumes "quiet_write u" and "eligible (row_at (apply_write g u) j)"
  shows "eligible (row_at g j)"
proof (cases u)
  case (Pair rng v)
  show ?thesis
  proof (cases rng)
    case (Range_AZ tab)
    with Pair assms show ?thesis by simp
  next
    case (Cell_at tab col r)
    show ?thesis
    proof (cases "r = 0")
      case True
      with Pair Cell_at assms show ?thesis by (simp add: write_cell_def)
    next
      case False
      then have r: "1 \<le> r" by simp
      show ?thesis
      proof (cases "j = r - 1")
        case False
        with Pair Cell_at assms r show ?thesis
          by (simp add: row_at_write_cell)
      next
        case True
        from Pair Cell_at assms(1)
        consider "column_index col \<noteq> 4 \<and> column_index col \<noteq> 5 \<and> column_index col \<noteq> 9"
          | "column_index col = 4 \<and> v = []"
          using column_indices by auto
        then show ?thesis
        proof cases
          case 1
          from Pair Cell_at assms(2) r True
          have "eligible ((pad (Suc (column_index col)) (JStr []) (row_at g j))[column_index col := JStr (js v)])"
            by (simp add: row_at_write_cell)
          with 1 show ?thesis
            by (simp add: eligible_write_other)
        next
          case 2
          from Pair Cell_at assms(2) r True
          have "eligible ((pad (Suc (column_index col)) (JStr []) (row_at g j))[column_index col := JStr (js v)])"
            by (simp add: row_at_write_cell)
          with 2 have "eligible ((pad (Suc 4) (JStr []) (row_at g j))[4 := JStr []])"
            by (simp only: js_Nil)
          with eligible_clear_desired show ?thesis
            by blast
        qed
      qed
    qed
  qed
qed

lemma apply_writes_mono:
  "list_all quiet_write ws \<Longrightarrow> eligible (row_at (apply_writes g ws) j) \<Longrightarrow> eligible (row_at g j)"
proof (induction ws arbitrary: g)
  case Nil
  then show ?case by (simp add: apply_writes_def)
next
  case (Cons u ws)
  from Cons.prems have "eligible (row_at (apply_writes (apply_write g u) ws) j)"
    by (simp add: apply_writes_def)
  with Cons have "eligible (row_at (apply_write g u) j)"
    by simp
  moreover from Cons.prems have "quiet_write u"
    by simp
  ultimately show ?case
    by (blast intro: apply_write_mono)
qed

lemma apply_writes_append: "apply_writes g (xs @ ys) = apply_writes (apply_writes g xs) ys"
  by (simp add: apply_writes_def)

lemma apply_writes_cleared:
  assumes "list_all quiet_write ws" and "(Cell_at tab col_desired r, []) \<in> set ws" and "1 \<le> r"
  shows "\<not> eligible (row_at (apply_writes g ws) (r - 1))"
proof -
  from assms(2) obtain xs ys where ws: "ws = xs @ (Cell_at tab col_desired r, []) # ys"
    by (meson split_list)
  define g1 where "g1 = apply_writes g xs"
  have "row_at (apply_write g1 (Cell_at tab col_desired r, [])) (r - 1) =
      (pad (Suc 4) (JStr []) (row_at g1 (r - 1)))[4 := JStr []]"
    using assms(3) by (simp only: apply_write.simps row_at_write_cell column_indices js_Nil) simp
  then have "\<not> eligible (row_at (apply_write g1 (Cell_at tab col_desired r, [])) (r - 1))"
    by (simp only: eligible_clear_desired not_False_eq_True)
  moreover have "list_all quiet_write ys"
    using assms(1) ws by simp
  moreover have "apply_writes g ws = apply_writes (apply_write g1 (Cell_at tab col_desired r, [])) ys"
    by (simp add: ws g1_def apply_writes_def)
  ultimately show ?thesis
    using apply_writes_mono by metis
qed

lemma sheet_fetch_grid: "fst (snd (fetch (sheet_io platform clock) w d t req)) = fst w"
  by (cases w) (simp add: sheet_io_def split: prod.splits)

lemma sheet_now_grid: "fst (snd (now (sheet_io platform clock) w)) = fst w"
  by (cases w) (simp add: sheet_io_def split: prod.splits)

lemma shopifyGraphql_grid:
  "fst (fst (snd (shopifyGraphql (sheet_io platform clock) env req s))) = fst (fst s)"
proof (cases s)
  case (Pair w tr)
  show ?thesis
  proof (cases "requireEnv env ''SHOPIFY_STORE_DOMAIN''")
    case (Inl e)
    with Pair show ?thesis by simp
  next
    case d: (Inr d)
    show ?thesis
    proof (cases "requireEnv env ''SHOPIFY_ADMIN_TOKEN''")
      case (Inl e)
      with Pair d show ?thesis by simp
    next
      case t: (Inr t)
      obtain resp w' where f: "fetch (sheet_io platform clock) w d t req = (resp, w')"
        by (metis prod.exhaust)
      with sheet_fetch_grid [of platform clock w d t req] have "fst w' = fst w"
        by simp
      with Pair d t f show ?thesis by simp
    qed
  qed
qed

lemma runOnce_grid:
  "fst (fst (snd (runOnce (sheet_io platform clock) env item loc q c s))) = fst (fst s)"
proof -
  obtain r s' where g: "shopifyGraphql (sheet_io platform clock) env (InventorySet item loc q c) s = (r, s')"
    by (metis prod.exhaust)
  with shopifyGraphql_grid [of platform clock env "InventorySet item loc q c" s]
  have "fst (fst s') = fst (fst s)" by simp
  with g show ?thesis
    by (cases r) (simp_all add: runOnce_def)
qed

lemma getCurrentAvailableQuantity_grid:
  "fst (fst (snd (getCurrentAvailableQuantity (sheet_io platform clock) env item loc s))) = fst (fst s)"
proof -
  obtain r s' where g: "shopifyGraphql (sheet_io platform clock) env (GetInventoryLevel item loc) s = (r, s')"
    by (metis prod.exhaust)
  with shopifyGraphql_grid [of platform clock env "GetInventoryLevel item loc" s]
  have "fst (fst s') = fst (fst s)" by simp
  with g show ?thesis
    by (cases r) (simp_all add: getCurrentAvailableQuantity_def split: option.splits)
qed

lemma shopifyInventorySetAvailable_grid:
  "fst (fst (snd (shopifyInventorySetAvailable (sheet_io platform clock) env item loc q c s))) =
   fst (fst s)"
proof -
  let ?io = "sheet_io platform clock"
  obtain r1 s1 where a1: "runOnce ?io env item loc q c s = (r1, s1)"
    by (metis prod.exhaust)
  obtain r2 s2 where a2: "getCurrentAvailableQuantity ?io env item loc s1 = (r2, s2)"
    by (metis prod.exhaust)
  obtain r3 s3 where a3: "runOnce ?io env item loc q (case r2 of Inr cur \<Rightarrow> cur | Inl e \<Rightarrow> 0) s2 = (r3, s3)"
    by (metis prod.exhaust)
  have g1: "fst (fst s1) = fst (fst s)"
    using runOnce_grid [of platform clock env item loc q c s] a1 by simp
  have g2: "fst (fst s2) = fst (fst s)"
    using getCurrentAvailableQuantity_grid [of platform clock env item loc s1] a2 g1 by simp
  have g3: "fst (fst s3) = fst (fst s)"
    using runOnce_grid [of platform clock env item loc q "case r2 of Inr cur \<Rightarrow> cur | Inl e \<Rightarrow> 0" s2]
      a3 g2 by simp
  have "snd (shopifyInventorySetAvailable ?io env item loc q c s) \<in> {s, s1, s2, s3}"
    using a1 a2 a3
    by (auto simp: shopifyInventorySetAvailable_def split: sum.splits if_splits)
  with g1 g2 g3 show ?thesis
    by auto
qed

lemma push_one_grid:
  "fst (fst (snd (push_one (sheet_io platform clock) env cfg c s))) = fst (fst s)"
proof -
  let ?io = "sheet_io platform clock"
  obtain r1 w1 tr1 where a: "shopifyInventorySetAvailable ?io env (inventoryItemId c) (locationId cfg)
             (desired c) (available c) s = (r1, (w1, tr1))"
    by (metis prod.exhaust)
  with shopifyInventorySetAvailable_grid
         [of platform clock env "inventoryItemId c" "locationId cfg" "desired c" "available c" s]
  have g1: "fst w1 = fst (fst s)"
    by simp
  obtain t w2 where n: "now ?io w1 = (t, w2)"
    by (metis prod.exhaust)
  with sheet_now_grid [of platform clock w1] have "fst w2 = fst w1"
    by simp
  with a n g1 show ?thesis
    by (cases r1) (simp_all add: push_one_def)
qed

lemma push_all_grid:
  "fst (fst (snd (push_all (sheet_io platform clock) env cfg cs ups s))) = fst (fst s)"
proof (induction cs arbitrary: ups s)
  case Nil
  then show ?case by simp
next
  case (Cons c cs)
  obtain out s1 where p: "push_one (sheet_io platform clock) env cfg c s = (out, s1)"
    by (metis prod.exhaust)
  with push_one_grid [of platform clock env cfg c s] have "fst (fst s1) = fst (fst s)"
    by simp
  with p Cons.IH [of "ups @ outcome_records cfg c out" s1] show ?case
    by simp
qed

subsection \<open>Which rows the scan selects\<close>

lemma candidate_at_Some_iff: "(\<exists>c. candidate_at i r = Some c) \<longleftrightarrow> eligible r"
  by (auto simp: candidate_at_def eligible_def split: option.splits)

lemma candidate_at_None_iff: "candidate_at i r = None \<longleftrightarrow> \<not> eligible r"
  using candidate_at_Some_iff [of i r] by auto

lemma take_selects:
  "(\<exists>c \<in> set (take n (all_candidates i0 rs)). rowIndex1Based c = j + 1) \<longleftrightarrow>
   (i0 \<le> j \<and> j < i0 + length rs \<and> eligible (rs ! (j - i0)) \<and>
    length (filter eligible (take (j - i0) rs)) < n)"
proof (induction rs arbitrary: i0 n)
  case Nil
  then show ?case by simp
next
  case (Cons r rs)
  have above: "\<And>c k. c \<in> set (take k (all_candidates (i0 + 1) rs)) \<Longrightarrow> i0 + 1 < rowIndex1Based c"
    by (meson all_candidates_above in_set_takeD)
  show ?case
  proof (cases "candidate_at i0 r")
    case None
    then have ne: "\<not> eligible r"
      by (simp add: candidate_at_None_iff)
    show ?thesis
    proof (cases "j \<le> i0")
      case True
      then have "\<not> (\<exists>c \<in> set (take n (all_candidates (i0 + 1) rs)). rowIndex1Based c = j + 1)"
        using above by fastforce
      with None True ne show ?thesis
        by (cases "j = i0") auto
    next
      case False
      then obtain d where d: "j - i0 = Suc d" "j - (i0 + 1) = d"
        by (metis Suc_diff_Suc add.commute diff_diff_left not_le plus_1_eq_Suc)
      from Cons.IH [of n "i0 + 1"] None False d ne show ?thesis
        by auto
    qed
  next
    case (Some c0)
    then have el: "eligible r"
      using candidate_at_Some_iff by blast
    from Some have row0: "rowIndex1Based c0 = i0 + 1"
      by (rule candidate_at_row)
    show ?thesis
    proof (cases n)
      case 0
      then show ?thesis by simp
    next
      case (Suc m)
      show ?thesis
      proof (cases "j \<le> i0")
        case True
        then have "\<not> (\<exists>c \<in> set (take m (all_candidates (i0 + 1) rs)). rowIndex1Based c = j + 1)"
          using above by fastforce
        with Some Suc True el row0 show ?thesis
          by (cases "j = i0") auto
      next
        case False
        then obtain d where d: "j - i0 = Suc d" "j - (i0 + 1) = d"
          by (metis Suc_diff_Suc add.commute diff_diff_left not_le plus_1_eq_Suc)
        from False row0 have "rowIndex1Based c0 \<noteq> j + 1"
          by simp
        with Cons.IH [of m "i0 + 1"] Some Suc False d el show ?thesis
          by auto
      qed
    qed
  qed
qed

lemma length_all_candidates: "length (all_candidates i0 rs) \<le> length rs"
proof (induction rs arbitrary: i0)
  case Nil
  then show ?case by simp
next
  case (Cons r rs)
  from Cons.IH [of "i0 + 1"] show ?case
    by (cases "candidate_at i0 r") simp_all
qed

lemma all_selects:
  "(\<exists>c \<in> set (all_candidates i0 rs). rowIndex1Based c = j + 1) \<longleftrightarrow>
   (i0 \<le> j \<and> j < i0 + length rs \<and> eligible (rs ! (j - i0)))"
proof -
  have "length (filter eligible (take (j - i0) rs)) \<le> length (take (j - i0) rs)"
    by (rule length_filter_le)
  then have lt: "length (filter eligible (take (j - i0) rs)) < Suc (length rs)"
    by simp
  have "take (Suc (length rs)) (all_candidates i0 rs) = all_candidates i0 rs"
    using length_all_candidates [of i0 rs] by simp
  with lt take_selects [of "Suc (length rs)" i0 rs j] show ?thesis
    by simp
qed

lemma all_candidates_member:
  "c \<in> set (all_candidates i0 rs) \<Longrightarrow>
   \<exists>i. i0 \<le> i \<and> i < i0 + length rs \<and> candidate_at i (rs ! (i - i0)) = Some c"
proof (induction rs arbitrary: i0)
  case Nil
  then show ?case by simp
next
  case (Cons r rs)
  show ?case
  proof (cases "candidate_at i0 r = Some c")
    case True
    then show ?thesis by auto
  next
    case False
    with Cons.prems have "c \<in> set (all_candidates (i0 + 1) rs)"
      by (auto split: option.splits)
    from Cons.IH [OF this] obtain i where
      i: "i0 + 1 \<le> i" "i < i0 + 1 + length rs" "candidate_at i (rs ! (i - (i0 + 1))) = Some c"
      by blast
    then have "(r # rs) ! (i - i0) = rs ! (i - (i0 + 1))"
      by (metis Suc_diff_le Suc_eq_plus1 add.commute diff_Suc_Suc diff_diff_left nth_Cons_Suc plus_1_eq_Suc)
    with i show ?thesis
      by (intro exI [of _ i]) auto
  qed
qed

lemma scan_take:
  assumes "maxRowsPerRun cfg = Fin (int N) 0" and "1 \<le> N"
  shows "scan cfg rows = take N (all_candidates 1 (drop 1 rows))"
  using assms capped_take [of 0 N] by (simp add: scan_capped)

lemma scan_member:
  assumes "c \<in> set (scan cfg rows)"
  shows "\<exists>i. 1 \<le> i \<and> i < length rows \<and> eligible (rows ! i) \<and> candidate_at i (rows ! i) = Some c"
proof -
  obtain k where "scan cfg rows = take k (all_candidates 1 (drop 1 rows))"
    using capped_is_take scan_capped by metis
  with assms have "c \<in> set (all_candidates 1 (drop 1 rows))"
    by (metis in_set_takeD)
  from all_candidates_member [OF this] obtain i where
    i: "1 \<le> i" "i < 1 + length (drop 1 rows)" "candidate_at i (drop 1 rows ! (i - 1)) = Some c"
    by blast
  then have "i < length rows" "drop 1 rows ! (i - 1) = rows ! i"
    by auto
  with i candidate_at_Some_iff show ?thesis
    by (intro exI [of _ i]) auto
qed

text \<open>
  The scan reads the cells as \<^verbatim>\<open>normalizeInt\<close> and \<^verbatim>\<open>String(...).trim()\<close> do: a desired
  cell that rounds to the available quantity makes no candidate, an item id of white
  space only is blank, white space around a quantity is dropped, and an item id held
  as a number is written as \<^verbatim>\<open>String\<close> writes it.
\<close>

lemma scan_cell_examples:
  "\<not> eligible (data_row (JStr (js ''7.99999999999999999'')) (JNum (Fin 8 0)) ''item1'')"
  "\<not> eligible [JStr [], JStr [], JStr [], JStr [], JNum (Fin 7 0), JNum (Fin 10 0), JStr [], JStr [],
       JStr [], JStr [0xA0]]"
  "candidate_at 1 (data_row (JStr (js ''7'' @ [0xA0])) (JNum (Fin 10 0)) ''item1'') =
     Some \<lparr>rowIndex1Based = 2, inventoryItemId = js ''item1'', desired = 7, available = 10\<rparr>"
  "invItemGid_of [JStr [], JStr [], JStr [], JStr [], JNum (Fin 7 0), JNum (Fin 10 0), JStr [], JStr [],
       JStr [], JNum (Fin (10 ^ 21) 0)] = Some (js ''1e+21'')"
  by code_simp+

text \<open>
  C2, as the claim states it, fails: the text \<^verbatim>\<open>7.9\<close> is not a well-formed integer, so
  a row whose desired cell holds it is not a sync candidate in the words of the
  specification; the scan selects the row all the same, with the desired quantity 7.
\<close>

theorem fractional_cell_selected:
  "\<not> spec_well_formed_integer (JStr (js ''7.9'')) \<and>
   \<not> spec_sync_candidate (data_row (JStr (js ''7.9'')) (JNum (Fin 10 0)) ''item1'') \<and>
   scan (CONFIG base_env) [header_row, data_row (JStr (js ''7.9'')) (JNum (Fin 10 0)) ''item1''] =
     [\<lparr>rowIndex1Based = 2, inventoryItemId = js ''item1'', desired = 7, available = 10\<rparr>]"
  by code_simp

text \<open>
  C2, amended. The scan selects the eligible rows below the header, in row order, up
  to the row at which the loop breaks. A row is eligible when its item id cell is
  truthy and not blank, \<^verbatim>\<open>normalizeInt\<close> gives an integer for both its desired and its
  available cell (any finite number, cut toward zero), and the two integers differ.
  Every selected row is an eligible data row: a row with a missing id, a missing or
  non-numeric quantity, or equal quantities is never selected. When the maximum rows
  per run is a whole number \<open>N \<ge> 1\<close>, the data row at index \<open>i\<close> is selected if and only if
  it is eligible and fewer than \<open>N\<close> eligible rows lie between the header and it.
\<close>

theorem scan_selects:
  "scan cfg rows = capped (maxRowsPerRun cfg) 0 (all_candidates 1 (drop 1 rows))
   \<and> (c \<in> set (scan cfg rows) \<longrightarrow>
        (\<exists>i. 1 \<le> i \<and> i < length rows \<and> eligible (rows ! i) \<and>
             candidate_at i (rows ! i) = Some c))
   \<and> (maxRowsPerRun cfg = Fin (int N) 0 \<and> 1 \<le> N \<and> 1 \<le> i \<and> i < length rows \<longrightarrow>
        ((\<exists>c \<in> set (scan cfg rows). rowIndex1Based c = i + 1) \<longleftrightarrow>
         (eligible (rows ! i) \<and> length (filter eligible (take (i - 1) (drop 1 rows))) < N)))
   \<and> (eligible r \<longleftrightarrow>
        truthy (cell r 9) \<and> trim (ToString (cell r 9)) \<noteq> [] \<and>
        (\<exists>d a. normalizeInt (cell r 4) = Some d \<and> normalizeInt (cell r 5) = Some a \<and> d \<noteq> a))"
proof (intro conjI impI)
  show "scan cfg rows = capped (maxRowsPerRun cfg) 0 (all_candidates 1 (drop 1 rows))"
    by (rule scan_capped)
  show "\<exists>i. 1 \<le> i \<and> i < length rows \<and> eligible (rows ! i) \<and> candidate_at i (rows ! i) = Some c"
    if "c \<in> set (scan cfg rows)"
    using that by (rule scan_member)
  show "(\<exists>c \<in> set (scan cfg rows). rowIndex1Based c = i + 1) \<longleftrightarrow>
         (eligible (rows ! i) \<and> length (filter eligible (take (i - 1) (drop 1 rows))) < N)"
    if a: "maxRowsPerRun cfg = Fin (int N) 0 \<and> 1 \<le> N \<and> 1 \<le> i \<and> i < length rows"
  proof -
    from a have "scan cfg rows = take N (all_candidates 1 (drop 1 rows))"
      by (simp add: scan_take)
    moreover from a have "drop 1 rows ! (i - 1) = rows ! i" "i < 1 + length (drop 1 rows)"
      by auto
    ultimately show ?thesis
      using take_selects [of N 1 "drop 1 rows" i] a by simp
  qed
  show "eligible r \<longleftrightarrow>
        truthy (cell r 9) \<and> trim (ToString (cell r 9)) \<noteq> [] \<and>
        (\<exists>d a. normalizeInt (cell r 4) = Some d \<and> normalizeInt (cell r 5) = Some a \<and> d \<noteq> a)"
    by (auto simp: eligible_def)
qed

theorem scan_selects_witness:
  "(\<exists>i. 1 \<le> i \<and> i < length example_sheet \<and> eligible (example_sheet ! i) \<and>
        candidate_at i (example_sheet ! i) =
          Some \<lparr>rowIndex1Based = 3, inventoryItemId = js ''item2'', desired = 3, available = 4\<rparr>) \<and>
   (\<exists>c \<in> set (scan (CONFIG base_env) example_sheet). rowIndex1Based c = 2 + 1) \<and>
   eligible (example_sheet ! 2) \<and>
   length (filter eligible (take (2 - 1) (drop 1 example_sheet))) < 50"
proof -
  let ?c = "\<lparr>rowIndex1Based = 3, inventoryItemId = js ''item2'', desired = 3, available = 4\<rparr>"
  have m: "?c \<in> set (scan (CONFIG base_env) example_sheet)"
    by code_simp
  have cap: "maxRowsPerRun (CONFIG base_env) = Fin (int 50) 0"
    by code_simp
  have n: "(1::nat) \<le> 50" "(1::nat) \<le> 2" "2 < length example_sheet"
    by code_simp+
  have e: "eligible (example_sheet ! 2)"
    "length (filter eligible (take (2 - 1) (drop 1 example_sheet))) < 50"
    by code_simp+
  from scan_selects [of "CONFIG base_env" example_sheet ?c 50 2] m cap n e
  show ?thesis
    by blast
qed

text \<open>
  C6, at a maximum of zero rows per run, with two eligible rows: the test of the cap
  comes after the candidate is pushed to the list, so the scan selects the first
  eligible row instead of none, and the run marks it PENDING and sends its conditional
  set to the platform.
\<close>

theorem cap_of_zero_pushes_one:
  "maxRowsPerRun (CONFIG (base_env(''MAX_ROWS_PER_RUN'' \<mapsto> ''0''))) = Fin 0 0 \<and>
   length (all_candidates 1 (drop 1 pushable_sheet)) = 2 \<and>
   scan (CONFIG (base_env(''MAX_ROWS_PER_RUN'' \<mapsto> ''0''))) pushable_sheet =
     [\<lparr>rowIndex1Based = 2, inventoryItemId = js ''item1'', desired = 7, available = 10\<rparr>] \<and>
   snd (snd (main (sheet_io cas_platform fixed_clock) (base_env(''MAX_ROWS_PER_RUN'' \<mapsto> ''0''))
        (pushable_sheet, example_platform))) =
     [ValuesGet (Some ''sheet-1'') (Range_AZ ''Truth_Table''),
      BatchUpdate (Some ''sheet-1'') [(Cell_at ''Truth_Table'' ''G'' 2, ''PENDING'')],
      Fetch ''shop.example'' ''secret''
        (InventorySet (js ''item1'') (Some ''gid://shopify/Location/1'') 7 10),
      BatchUpdate (Some ''sheet-1'')
        [(Cell_at ''Truth_Table'' ''G'' 2, []),
         (Cell_at ''Truth_Table'' ''H'' 2, ''2025-01-01T00:00:00.000Z''),
         (Cell_at ''Truth_Table'' ''I'' 2, []),
         (Cell_at ''Truth_Table'' ''E'' 2, [])]]"
  by code_simp

subsection \<open>A second run\<close>

lemma main_ok_env:
  assumes "fst (main io env w) = Inr ()"
  shows "\<exists>v1 v2 v3 v4. requireEnv env ''SPREADSHEET_ID'' = Inr v1 \<and>
      requireEnv env ''SHOPIFY_STORE_DOMAIN'' = Inr v2 \<and>
      requireEnv env ''SHOPIFY_LOCATION_ID'' = Inr v3 \<and> requireEnv env ''SHOPIFY_ADMIN_TOKEN'' = Inr v4"
proof (cases "requireEnv env ''SPREADSHEET_ID''")
  case (Inl e)
  with assms show ?thesis by (simp add: main_def Let_def)
next
  case r1: (Inr v1)
  show ?thesis
  proof (cases "requireEnv env ''SHOPIFY_STORE_DOMAIN''")
    case (Inl e)
    with assms r1 show ?thesis by (simp add: main_def Let_def)
  next
    case r2: (Inr v2)
    show ?thesis
    proof (cases "requireEnv env ''SHOPIFY_LOCATION_ID''")
      case (Inl e)
      with assms r1 r2 show ?thesis by (simp add: main_def Let_def)
    next
      case r3: (Inr v3)
      show ?thesis
      proof (cases "requireEnv env ''SHOPIFY_ADMIN_TOKEN''")
        case (Inl e)
        with assms r1 r2 r3 show ?thesis by (simp add: main_def Let_def)
      next
        case r4: (Inr v4)
        with r1 r2 r3 show ?thesis by blast
      qed
    qed
  qed
qed

lemma sheet_values_get:
  "values_get (sheet_io platform clock) (g, p) sid rng = (Inr (Some g), (g, p))"
  by (simp add: sheet_io_def)

lemma sheet_batchUpdate:
  "values_batchUpdate (sheet_io platform clock) (g, p) sid ws = (Inr (), (apply_writes g ws, p))"
  by (simp add: sheet_io_def)

lemma main_sheet_no_candidates:
  assumes "requireEnv env ''SPREADSHEET_ID'' = Inr v1" "requireEnv env ''SHOPIFY_STORE_DOMAIN'' = Inr v2"
    "requireEnv env ''SHOPIFY_LOCATION_ID'' = Inr v3" "requireEnv env ''SHOPIFY_ADMIN_TOKEN'' = Inr v4"
    and "scan (CONFIG env) g = []"
  shows "main (sheet_io platform clock) env (g, p) =
     (Inr (), ((g, p), [ValuesGet (spreadsheetId (CONFIG env)) (Range_AZ (sheetName (CONFIG env)))]))"
  using assms by (simp add: main_def Let_def sheet_values_get)

lemma loop_entry_sheet:
  assumes "requireEnv env ''SPREADSHEET_ID'' = Inr v1" "requireEnv env ''SHOPIFY_STORE_DOMAIN'' = Inr v2"
    "requireEnv env ''SHOPIFY_LOCATION_ID'' = Inr v3" "requireEnv env ''SHOPIFY_ADMIN_TOKEN'' = Inr v4"
    and "scan (CONFIG env) g \<noteq> []"
  shows "loop_entry (sheet_io platform clock) env (g, p) =
     Some (scan (CONFIG env) g,
       ((apply_writes g (pending_records (CONFIG env) (scan (CONFIG env) g)), p),
        [ValuesGet (spreadsheetId (CONFIG env)) (Range_AZ (sheetName (CONFIG env))),
         BatchUpdate (spreadsheetId (CONFIG env))
           (pending_records (CONFIG env) (scan (CONFIG env) g))]))"
  using assms by (simp add: loop_entry_def Let_def sheet_values_get sheet_batchUpdate)

lemma main_sheet_loop:
  assumes le: "loop_entry (sheet_io platform clock) env (g, p) = Some (cands, s2)"
    and s2: "fst (fst s2) = apply_writes g (pending_records (CONFIG env) cands)"
  shows "\<exists>p' tr3. main (sheet_io platform clock) env (g, p) =
     (Inr (),
      ((apply_writes g (pending_records (CONFIG env) cands @
                        fst (push_all (sheet_io platform clock) env (CONFIG env) cands [] s2)), p'),
       tr3 @ [BatchUpdate (spreadsheetId (CONFIG env))
                (fst (push_all (sheet_io platform clock) env (CONFIG env) cands [] s2))]))"
proof -
  let ?io = "sheet_io platform clock"
  obtain updates g3 p3 tr3 where
    pa: "push_all ?io env (CONFIG env) cands [] s2 = (updates, ((g3, p3), tr3))"
    by (metis prod.exhaust)
  with push_all_grid [of platform clock env "CONFIG env" cands "[]" s2] s2
  have g3: "g3 = apply_writes g (pending_records (CONFIG env) cands)"
    by simp
  from main_loop_entry [OF le] pa
  have "main ?io env (g, p) =
      (Inr (), ((apply_writes g3 updates, p3), tr3 @ [BatchUpdate (spreadsheetId (CONFIG env)) updates]))"
    by (simp add: sheet_batchUpdate)
  with pa g3 show ?thesis
    by (simp add: apply_writes_append)
qed

lemma quiet_pending: "list_all quiet_write (pending_records cfg cs)"
  by (simp add: pending_records_def list_all_iff)

lemma quiet_outcome_records: "list_all quiet_write (outcome_records cfg c out)"
  by (cases out) (simp_all add: outcome_records_def)

lemma quiet_updates: "list_all quiet_write (fst (push_all io env cfg cs [] s))"
proof -
  have "\<forall>u \<in> set (concat (map2 (outcome_records cfg) cs (push_outcomes io env cfg cs s))). quiet_write u"
  proof
    fix u
    assume "u \<in> set (concat (map2 (outcome_records cfg) cs (push_outcomes io env cfg cs s)))"
    from concat_records_elem [OF this] obtain c out where "u \<in> set (outcome_records cfg c out)"
      by blast
    with quiet_outcome_records [of cfg c out] show "quiet_write u"
      by (simp add: list_all_iff)
  qed
  then show ?thesis
    by (simp add: push_all_updates list_all_iff)
qed

lemma records_in_updates:
  assumes "i < length cs"
  shows "set (outcome_records cfg (cs ! i)
            (fst (push_one io env cfg (cs ! i) (snd (push_all io env cfg (take i cs) [] s))))) \<subseteq>
         set (fst (push_all io env cfg cs [] s))"
proof -
  let ?outs = "push_outcomes io env cfg cs s"
  have len: "length ?outs = length cs"
    by (rule length_push_outcomes)
  with assms have "(cs ! i, ?outs ! i) \<in> set (zip cs ?outs)"
    by (metis in_set_zip fst_conv snd_conv)
  then have "set (outcome_records cfg (cs ! i) (?outs ! i)) \<subseteq>
      set (concat (map2 (outcome_records cfg) cs ?outs))"
    by force
  then show ?thesis
    by (simp add: push_all_updates push_outcomes_nth [OF assms, of io env cfg s "[]"])
qed

lemma no_eligible_no_candidates:
  assumes "\<forall>j. 1 \<le> j \<longrightarrow> \<not> eligible (row_at g j)"
  shows "scan cfg g = []"
proof -
  have "all_candidates 1 (drop 1 g) = []"
  proof (rule ccontr)
    assume "all_candidates 1 (drop 1 g) \<noteq> []"
    then obtain c where "c \<in> set (all_candidates 1 (drop 1 g))"
      by (meson last_in_set)
    from all_candidates_member [OF this] obtain i where
      i: "1 \<le> i" "i < 1 + length (drop 1 g)" "candidate_at i (drop 1 g ! (i - 1)) = Some c"
      by blast
    then have "i < length g" "drop 1 g ! (i - 1) = g ! i"
      by auto
    with i candidate_at_Some_iff have "eligible (row_at g i)"
      by (auto simp: row_at_def)
    with assms i(1) show False
      by blast
  qed
  then show ?thesis
    by (simp add: scan_capped)
qed

text \<open>
  C5, as the claim states it, fails: with a maximum of one row per run and two rows
  waiting, the first run pushes its one candidate with success, and the second run,
  on the sheet the first one left, finds the other row.
\<close>

theorem capped_run_leaves_candidates:
  "fst (main (sheet_io cas_platform fixed_clock) (base_env(''MAX_ROWS_PER_RUN'' \<mapsto> ''1''))
        (pushable_sheet, example_platform)) = Inr () \<and>
   snd (snd (main (sheet_io cas_platform fixed_clock) (base_env(''MAX_ROWS_PER_RUN'' \<mapsto> ''1''))
        (pushable_sheet, example_platform))) =
     [ValuesGet (Some ''sheet-1'') (Range_AZ ''Truth_Table''),
      BatchUpdate (Some ''sheet-1'') [(Cell_at ''Truth_Table'' ''G'' 2, ''PENDING'')],
      Fetch ''shop.example'' ''secret''
        (InventorySet (js ''item1'') (Some ''gid://shopify/Location/1'') 7 10),
      BatchUpdate (Some ''sheet-1'')
        [(Cell_at ''Truth_Table'' ''G'' 2, []),
         (Cell_at ''Truth_Table'' ''H'' 2, ''2025-01-01T00:00:00.000Z''),
         (Cell_at ''Truth_Table'' ''I'' 2, []),
         (Cell_at ''Truth_Table'' ''E'' 2, [])]] \<and>
   scan (CONFIG (base_env(''MAX_ROWS_PER_RUN'' \<mapsto> ''1'')))
     (fst (fst (snd (main (sheet_io cas_platform fixed_clock)
        (base_env(''MAX_ROWS_PER_RUN'' \<mapsto> ''1'')) (pushable_sheet, example_platform))))) =
     [\<lparr>rowIndex1Based = 3, inventoryItemId = js ''item2'', desired = 3, available = 4\<rparr>]"
  by code_simp

text \<open>
  C5, amended. Against a row store that nothing else edits: when a run completes, its
  scan was not cut short by the maximum rows per run (every eligible row was a
  candidate) and it wrote no status \<^verbatim>\<open>ERROR\<close> (every candidate succeeded), then the scan
  of the sheet it leaves finds no candidate, and a second run reads the rows and does
  nothing more.
\<close>

theorem second_run_finds_nothing:
  assumes run: "main (sheet_io platform clock) env (g, p) = (Inr (), ((g', p'), tr))"
    and whole: "scan (CONFIG env) g = all_candidates 1 (drop 1 g)"
    and ok: "\<forall>sid ws tab r. BatchUpdate sid ws \<in> set tr \<longrightarrow>
               (Cell_at tab col_status r, ''ERROR'') \<notin> set ws"
  shows "scan (CONFIG env) g' = [] \<and>
     main (sheet_io platform clock) env (g', p') =
       (Inr (), ((g', p'), [ValuesGet (spreadsheetId (CONFIG env)) (Range_AZ (sheetName (CONFIG env)))]))"
proof -
  let ?io = "sheet_io platform clock"
  define cfg where "cfg = CONFIG env"
  from run have "fst (main ?io env (g, p)) = Inr ()"
    by simp
  from main_ok_env [OF this] obtain v1 v2 v3 v4 where env:
    "requireEnv env ''SPREADSHEET_ID'' = Inr v1" "requireEnv env ''SHOPIFY_STORE_DOMAIN'' = Inr v2"
    "requireEnv env ''SHOPIFY_LOCATION_ID'' = Inr v3" "requireEnv env ''SHOPIFY_ADMIN_TOKEN'' = Inr v4"
    by blast
  have empty: "scan cfg g' = []"
  proof (cases "scan cfg g = []")
    case True
    from main_sheet_no_candidates [OF env, of g platform clock p] True run have "g' = g"
      by (simp add: cfg_def)
    with True show ?thesis by simp
  next
    case False
    define cands where "cands = scan cfg g"
    define pend where "pend = pending_records cfg cands"
    define s2 where "s2 = ((apply_writes g pend, p),
        [ValuesGet (spreadsheetId cfg) (Range_AZ (sheetName cfg)), BatchUpdate (spreadsheetId cfg) pend])"
    define updates where "updates = fst (push_all ?io env cfg cands [] s2)"
    have le: "loop_entry ?io env (g, p) = Some (cands, s2)"
      using loop_entry_sheet [OF env, of g platform clock p] False
      by (simp add: cfg_def cands_def pend_def s2_def)
    have "fst (fst s2) = apply_writes g (pending_records (CONFIG env) cands)"
      by (simp add: s2_def pend_def cfg_def)
    from main_sheet_loop [OF le this] run obtain tr3 where
      g': "g' = apply_writes g (pend @ updates)" and
      tr: "tr = tr3 @ [BatchUpdate (spreadsheetId cfg) updates]"
      by (auto simp: cfg_def pend_def updates_def)
    have quiet: "list_all quiet_write (pend @ updates)"
      by (simp add: pend_def updates_def quiet_pending quiet_updates)
    have "\<not> eligible (row_at g' j)" if j: "1 \<le> j" for j
    proof
      assume el': "eligible (row_at g' j)"
      with quiet g' have el: "eligible (row_at g j)"
        using apply_writes_mono by blast
      then have jl: "j < length g"
        by (auto simp: row_at_def split: if_splits)
      with el j have "1 \<le> j \<and> j < 1 + length (drop 1 g) \<and> eligible (drop 1 g ! (j - 1))"
        by (auto simp: row_at_def)
      with all_selects [of 1 "drop 1 g" j]
      obtain c where c: "c \<in> set (all_candidates 1 (drop 1 g))" "rowIndex1Based c = j + 1"
        by blast
      with whole have "c \<in> set cands"
        by (simp add: cands_def cfg_def)
      then obtain i where i: "i < length cands" "c = cands ! i"
        by (auto simp: in_set_conv_nth)
      define out where "out = fst (push_one ?io env cfg c (snd (push_all ?io env cfg (take i cands) [] s2)))"
      from records_in_updates [OF i(1), of cfg ?io env s2] i(2)
      have sub: "set (outcome_records cfg c out) \<subseteq> set updates"
        by (simp add: out_def updates_def)
      have "\<exists>t. out = Inr t"
      proof (cases out)
        case (Inl err)
        then have "(Cell_at (sheetName cfg) col_status (rowIndex1Based c), ''ERROR'') \<in>
            set (outcome_records cfg c out)"
          by (simp add: outcome_records_def)
        with sub have "(Cell_at (sheetName cfg) col_status (rowIndex1Based c), ''ERROR'') \<in> set updates"
          by blast
        moreover from tr have "BatchUpdate (spreadsheetId cfg) updates \<in> set tr"
          by simp
        ultimately show ?thesis
          using ok by blast
      next
        case (Inr t)
        then show ?thesis by blast
      qed
      then obtain t where "out = Inr t"
        by blast
      then have "(Cell_at (sheetName cfg) col_desired (rowIndex1Based c), []) \<in>
          set (outcome_records cfg c out)"
        by (simp add: outcome_records_def)
      with sub c(2) have "(Cell_at (sheetName cfg) col_desired (j + 1), []) \<in> set (pend @ updates)"
        by auto
      from apply_writes_cleared [OF quiet this, of g] g' have "\<not> eligible (row_at g' j)"
        by simp
      with el' show False
        by contradiction
    qed
    then show ?thesis
      using no_eligible_no_candidates by blast
  qed
  from main_sheet_no_candidates [OF env, of g' platform clock p'] empty
  show ?thesis
    by (simp add: cfg_def)
qed

theorem second_run_finds_nothing_witness:
  "scan (CONFIG base_env)
     (fst (fst (snd (main (sheet_io cas_platform fixed_clock) base_env
        (pushable_sheet, example_platform))))) = [] \<and>
   main (sheet_io cas_platform fixed_clock) base_env
     (fst (snd (main (sheet_io cas_platform fixed_clock) base_env (pushable_sheet, example_platform)))) =
     (Inr (),
      (fst (snd (main (sheet_io cas_platform fixed_clock) base_env (pushable_sheet, example_platform))),
       [ValuesGet (Some ''sheet-1'') (Range_AZ ''Truth_Table'')]))"
proof -
  let ?io = "sheet_io cas_platform fixed_clock"
  let ?M = "main ?io base_env (pushable_sheet, example_platform)"
  have ok: "fst ?M = Inr ()"
    by code_simp
  then have run: "?M = (Inr (), ((fst (fst (snd ?M)), snd (fst (snd ?M))), snd (snd ?M)))"
    by (metis prod.collapse)
  have whole: "scan (CONFIG base_env) pushable_sheet = all_candidates 1 (drop 1 pushable_sheet)"
    by code_simp
  have tr: "snd (snd ?M) =
     [ValuesGet (Some ''sheet-1'') (Range_AZ ''Truth_Table''),
      BatchUpdate (Some ''sheet-1'')
        [(Cell_at ''Truth_Table'' ''G'' 2, ''PENDING''), (Cell_at ''Truth_Table'' ''G'' 3, ''PENDING'')],
      Fetch ''shop.example'' ''secret''
        (InventorySet (js ''item1'') (Some ''gid://shopify/Location/1'') 7 10),
      Fetch ''shop.example'' ''secret''
        (InventorySet (js ''item2'') (Some ''gid://shopify/Location/1'') 3 4),
      Fetch ''shop.example'' ''secret''
        (GetInventoryLevel (js ''item2'') (Some ''gid://shopify/Location/1'')),
      Fetch ''shop.example'' ''secret''
        (InventorySet (js ''item2'') (Some ''gid://shopify/Location/1'') 3 8),
      BatchUpdate (Some ''sheet-1'')
        [(Cell_at ''Truth_Table'' ''G'' 2, []),
         (Cell_at ''Truth_Table'' ''H'' 2, ''2025-01-01T00:00:00.000Z''),
         (Cell_at ''Truth_Table'' ''I'' 2, []),
         (Cell_at ''Truth_Table'' ''E'' 2, []),
         (Cell_at ''Truth_Table'' ''G'' 3, []),
         (Cell_at ''Truth_Table'' ''H'' 3, ''2025-01-01T00:00:00.000Z''),
         (Cell_at ''Truth_Table'' ''I'' 3, []),
         (Cell_at ''Truth_Table'' ''E'' 3, [])]]"
    by code_simp
  have noerr: "\<forall>sid ws tab r. BatchUpdate sid ws \<in> set (snd (snd ?M)) \<longrightarrow>
               (Cell_at tab col_status r, ''ERROR'') \<notin> set ws"
    unfolding tr by auto
  have cfg: "spreadsheetId (CONFIG base_env) = Some ''sheet-1''" "sheetName (CONFIG base_env) = ''Truth_Table''"
    by code_simp+
  from second_run_finds_nothing [OF run whole noerr]
  show ?thesis
    by (simp add: cfg)
qed

subsection \<open>Consequences on the row store\<close>

lemma writes_target_candidates:
  assumes le: "loop_entry io env w = Some (cands, s2)"
    and b: "BatchUpdate sid ws \<in> set (snd (snd (main io env w)))"
    and u: "u \<in> set ws"
  shows "row_of (fst u) \<in> rowIndex1Based ` set cands"
proof -
  from main_writes [OF le b]
  have "ws = pending_records (CONFIG env) cands \<or> ws = fst (push_all io env (CONFIG env) cands [] s2)"
    by simp
  then show ?thesis
  proof
    assume "ws = pending_records (CONFIG env) cands"
    with u show ?thesis
      by (auto simp: pending_records_def)
  next
    assume "ws = fst (push_all io env (CONFIG env) cands [] s2)"
    with u have "u \<in> set (concat (map2 (outcome_records (CONFIG env)) cands
        (push_outcomes io env (CONFIG env) cands s2)))"
      by (simp add: push_all_updates)
    from concat_records_elem [OF this] obtain c out where
      "c \<in> set cands" "u \<in> set (outcome_records (CONFIG env) c out)"
      by blast
    then show ?thesis
      using outcome_records_row by blast
  qed
qed

text \<open>The cells of a row that a write leaves as they are, as far as the scan can tell.\<close>

lemma apply_write_keeps_eligible:
  assumes q: "quiet_write u"
    and other: "\<not> (row_of (fst u) = j + 1 \<and> column_of (fst u) = col_desired)"
  shows "eligible (row_at (apply_write g u) j) = eligible (row_at g j)"
proof (cases u)
  case (Pair rng v)
  show ?thesis
  proof (cases rng)
    case (Range_AZ tab)
    with Pair show ?thesis by simp
  next
    case (Cell_at tab col r)
    show ?thesis
    proof (cases "r = 0")
      case True
      with Pair Cell_at show ?thesis by (simp add: write_cell_def)
    next
      case False
      then have r: "1 \<le> r" by simp
      show ?thesis
      proof (cases "j = r - 1")
        case False
        with Pair Cell_at r show ?thesis
          by (simp add: row_at_write_cell)
      next
        case True
        with r have "r = j + 1" by simp
        with Pair Cell_at other have "col \<noteq> col_desired" by simp
        with Pair Cell_at q
        have "column_index col \<noteq> 4 \<and> column_index col \<noteq> 5 \<and> column_index col \<noteq> 9"
          using column_indices by auto
        moreover from Pair Cell_at r True
        have "row_at (apply_write g u) j =
            (pad (Suc (column_index col)) (JStr []) (row_at g j))[column_index col := JStr (js v)]"
          by (simp add: row_at_write_cell)
        ultimately show ?thesis
          by (simp add: eligible_write_other)
      qed
    qed
  qed
qed

lemma apply_writes_keeps_eligible:
  "list_all quiet_write ws \<Longrightarrow>
   \<forall>u \<in> set ws. \<not> (row_of (fst u) = j + 1 \<and> column_of (fst u) = col_desired) \<Longrightarrow>
   eligible (row_at (apply_writes g ws) j) = eligible (row_at g j)"
proof (induction ws arbitrary: g)
  case Nil
  then show ?case by (simp add: apply_writes_def)
next
  case (Cons u ws)
  from Cons.prems have "eligible (row_at (apply_write g u) j) = eligible (row_at g j)"
    by (intro apply_write_keeps_eligible) simp_all
  moreover from Cons.prems Cons.IH [of "apply_write g u"]
  have "eligible (row_at (apply_writes (apply_write g u) ws) j) = eligible (row_at (apply_write g u) j)"
    by simp
  ultimately show ?case
    by (simp add: apply_writes_def)
qed

text \<open>On the row store, the run that completes leaves a row whose push failed eligible:
  the next scan meets it again.\<close>

lemma failed_row_stays_eligible:
  assumes run: "main (sheet_io platform clock) env (g, p) = (r, ((g', p'), tr))"
    and le: "loop_entry (sheet_io platform clock) env (g, p) = Some (cands, s2)"
    and i: "i < length cands"
    and fail: "fst (push_one (sheet_io platform clock) env (CONFIG env) (cands ! i)
                 (snd (push_all (sheet_io platform clock) env (CONFIG env) (take i cands) [] s2))) =
               Inl err"
  shows "eligible (row_at g' (rowIndex1Based (cands ! i) - 1))"
proof -
  let ?io = "sheet_io platform clock"
  define cfg where "cfg = CONFIG env"
  define c where "c = cands ! i"
  define updates where "updates = fst (push_all ?io env cfg cands [] s2)"
  from le have ne: "scan cfg g \<noteq> []" and cands: "cands = scan cfg g"
    and s2: "fst (fst s2) = apply_writes g (pending_records cfg cands)"
    by (auto simp: loop_entry_def Let_def sheet_values_get sheet_batchUpdate cfg_def
        split: sum.splits if_splits)
  from main_sheet_loop [OF le] s2 run
  have g': "g' = apply_writes g (pending_records cfg cands @ updates)"
    by (auto simp: cfg_def updates_def)
  have quiet: "list_all quiet_write (pending_records cfg cands @ updates)"
    by (simp add: updates_def quiet_pending quiet_updates)
  from i cands have "c \<in> set (scan cfg g)"
    by (simp add: c_def)
  from scan_member [OF this] obtain i0 where
    i0: "1 \<le> i0" "i0 < length g" "eligible (g ! i0)" "candidate_at i0 (g ! i0) = Some c"
    by blast
  then have row: "rowIndex1Based c = i0 + 1"
    using candidate_at_row by blast
  from updates_row_records [OF le i] fail
  have rows: "filter (\<lambda>u. row_of (fst u) = rowIndex1Based c) updates =
      [(Cell_at (sheetName cfg) col_status (rowIndex1Based c), ''ERROR''),
       (Cell_at (sheetName cfg) col_lastError (rowIndex1Based c), error_text err)]"
    by (simp add: updates_def cfg_def c_def outcome_records_def)
  have "\<not> (row_of (fst u) = i0 + 1 \<and> column_of (fst u) = col_desired)"
    if u: "u \<in> set (pending_records cfg cands @ updates)" for u
  proof
    assume a: "row_of (fst u) = i0 + 1 \<and> column_of (fst u) = col_desired"
    from u consider "u \<in> set (pending_records cfg cands)" | "u \<in> set updates"
      by auto
    then show False
    proof cases
      case 1
      then have "column_of (fst u) = col_status"
        by (auto simp: pending_records_def)
      with a col_distinct show False by simp
    next
      case 2
      with a row have "u \<in> set (filter (\<lambda>u. row_of (fst u) = rowIndex1Based c) updates)"
        by simp
      with rows have "column_of (fst u) = col_status \<or> column_of (fst u) = col_lastError"
        by auto
      with a col_distinct show False by auto
    qed
  qed
  with apply_writes_keeps_eligible [OF quiet, of i0 g] g'
  have "eligible (row_at g' i0) = eligible (row_at g i0)"
    by blast
  with i0 row show ?thesis
    by (simp add: row_at_def c_def)
qed

text \<open>On the row store, the status cell of a row after the writes of an outcome batch.\<close>

lemma cell_written_at:
  "n = Suc ci \<Longrightarrow>
   cell ((pad n (JStr []) r)[ci := JStr v]) k =
     (if k = ci then JStr v
      else if k < length r then r ! k
      else if k \<le> ci then JStr [] else JUndefined)"
  by (simp add: cell_written)

lemma cell_kept:
  assumes "ci \<noteq> k" and "cell r k = JStr x"
  shows "cell ((pad (Suc ci) (JStr []) r)[ci := JStr v]) k = JStr x"
proof -
  from assms(2) have "k < length r \<and> r ! k = JStr x"
    by (cases "k < length r") (simp_all add: cell_def)
  with assms(1) show ?thesis
    by (simp add: cell_written)
qed

lemma status_cell_after_write:
  assumes q: "quiet_write u"
    and v: "\<forall>tab r v. u = (Cell_at tab col_status r, v) \<longrightarrow> v = [] \<or> v = ''ERROR''"
    and before: "(row_of (fst u) = j + 1 \<and> column_of (fst u) = col_status) \<or>
       cell (row_at g j) 6 = JStr [] \<or> cell (row_at g j) 6 = JStr (js ''ERROR'')"
  shows "cell (row_at (apply_write g u) j) 6 = JStr [] \<or>
         cell (row_at (apply_write g u) j) 6 = JStr (js ''ERROR'')"
proof (cases u)
  case (Pair rng v0)
  show ?thesis
  proof (cases rng)
    case (Range_AZ tab)
    with Pair before show ?thesis by simp
  next
    case (Cell_at tab col r)
    show ?thesis
    proof (cases "r = j + 1")
      case False
      have "row_at (apply_write g u) j = row_at g j"
      proof (cases "r = 0")
        case True
        with Pair Cell_at show ?thesis by (simp add: write_cell_def)
      next
        case r: False
        with False have "j \<noteq> r - 1" "1 \<le> r" by auto
        with Pair Cell_at show ?thesis by (simp add: row_at_write_cell)
      qed
      with False Pair Cell_at before show ?thesis
        by simp
    next
      case True
      have c: "cell rw k = (if k < length rw then rw ! k else JUndefined)" for rw :: row and k
        by (simp add: cell_def)
      from True Pair Cell_at
      have new: "row_at (apply_write g u) j =
          (pad (Suc (column_index col)) (JStr []) (row_at g j))[column_index col := JStr (js v0)]"
        by (simp add: row_at_write_cell)
      from Pair Cell_at q consider
        (status) "col = col_status" | (other) "column_index col \<noteq> 6" "col \<noteq> col_status"
        using column_indices col_distinct by auto
      then show ?thesis
      proof cases
        case status
        with Pair Cell_at v have "v0 = [] \<or> v0 = ''ERROR''"
          by simp
        moreover from status new
        have "cell (row_at (apply_write g u) j) 6 = JStr (js v0)"
          by (simp only: column_indices cell_written) simp
        ultimately show ?thesis
          by auto
      next
        case other
        with Pair Cell_at before
        have "cell (row_at g j) 6 = JStr [] \<or> cell (row_at g j) 6 = JStr (js ''ERROR'')"
          by auto
        then show ?thesis
        proof
          assume "cell (row_at g j) 6 = JStr []"
          from cell_kept [OF other(1) this] new show ?thesis
            by simp
        next
          assume "cell (row_at g j) 6 = JStr (js ''ERROR'')"
          from cell_kept [OF other(1) this] new show ?thesis
            by simp
        qed
      qed
    qed
  qed
qed

lemma status_cell_after_writes:
  "list_all quiet_write ws \<Longrightarrow>
   \<forall>tab r v. (Cell_at tab col_status r, v) \<in> set ws \<longrightarrow> v = [] \<or> v = ''ERROR'' \<Longrightarrow>
   (\<exists>u \<in> set ws. row_of (fst u) = j + 1 \<and> column_of (fst u) = col_status) \<or>
     cell (row_at g j) 6 = JStr [] \<or> cell (row_at g j) 6 = JStr (js ''ERROR'') \<Longrightarrow>
   cell (row_at (apply_writes g ws) j) 6 = JStr [] \<or>
   cell (row_at (apply_writes g ws) j) 6 = JStr (js ''ERROR'')"
proof (induction ws arbitrary: g rule: rev_induct)
  case Nil
  then show ?case by (simp add: apply_writes_def)
next
  case (snoc u ws)
  have q: "quiet_write u" and qs: "list_all quiet_write ws"
    using snoc.prems(1) by simp_all
  have v: "\<forall>tab r v. u = (Cell_at tab col_status r, v) \<longrightarrow> v = [] \<or> v = ''ERROR''"
    using snoc.prems(2) by simp
  have vs: "\<forall>tab r v. (Cell_at tab col_status r, v) \<in> set ws \<longrightarrow> v = [] \<or> v = ''ERROR''"
    using snoc.prems(2) by simp
  have "(row_of (fst u) = j + 1 \<and> column_of (fst u) = col_status) \<or>
       cell (row_at (apply_writes g ws) j) 6 = JStr [] \<or>
       cell (row_at (apply_writes g ws) j) 6 = JStr (js ''ERROR'')"
  proof (cases "row_of (fst u) = j + 1 \<and> column_of (fst u) = col_status")
    case True
    then show ?thesis by blast
  next
    case False
    with snoc.prems(3) have "(\<exists>u \<in> set ws. row_of (fst u) = j + 1 \<and> column_of (fst u) = col_status) \<or>
         cell (row_at g j) 6 = JStr [] \<or> cell (row_at g j) 6 = JStr (js ''ERROR'')"
      by auto
    from snoc.IH [OF qs vs this] show ?thesis
      by blast
  qed
  from status_cell_after_write [OF q v this] show ?case
    by (simp add: apply_writes_def)
qed

text \<open>On the row store, no candidate of a run that completes is left with the status
  PENDING: its status cell is empty or \<^verbatim>\<open>ERROR\<close>.\<close>

lemma no_pending_left:
  assumes run: "main (sheet_io platform clock) env (g, p) = (r, ((g', p'), tr))"
    and le: "loop_entry (sheet_io platform clock) env (g, p) = Some (cands, s2)"
    and c: "c \<in> set cands"
  shows "cell (row_at g' (rowIndex1Based c - 1)) 6 = JStr [] \<or>
         cell (row_at g' (rowIndex1Based c - 1)) 6 = JStr (js ''ERROR'')"
proof -
  let ?io = "sheet_io platform clock"
  define cfg where "cfg = CONFIG env"
  define updates where "updates = fst (push_all ?io env cfg cands [] s2)"
  define g1 where "g1 = apply_writes g (pending_records cfg cands)"
  from le have s2: "fst (fst s2) = apply_writes g (pending_records cfg cands)"
    and cands: "cands = scan cfg g"
    by (auto simp: loop_entry_def Let_def sheet_values_get sheet_batchUpdate cfg_def
        split: sum.splits if_splits)
  from main_sheet_loop [OF le] s2 run
  have g': "g' = apply_writes g1 updates"
    by (auto simp: cfg_def updates_def g1_def apply_writes_append)
  from c cands have row: "2 \<le> rowIndex1Based c"
    using scan_row_ge_2 by blast
  from c obtain i where i: "i < length cands" "c = cands ! i"
    by (auto simp: in_set_conv_nth)
  define out where "out = fst (push_one ?io env cfg c (snd (push_all ?io env cfg (take i cands) [] s2)))"
  from records_in_updates [OF i(1), of cfg ?io env s2] i(2)
  have sub: "set (outcome_records cfg c out) \<subseteq> set updates"
    by (simp add: out_def updates_def)
  have "\<exists>v. (Cell_at (sheetName cfg) col_status (rowIndex1Based c), v) \<in> set (outcome_records cfg c out)"
    by (cases out) (auto simp: outcome_records_def)
  with sub obtain v where "(Cell_at (sheetName cfg) col_status (rowIndex1Based c), v) \<in> set updates"
    by blast
  with row have ex: "\<exists>u \<in> set updates. row_of (fst u) = (rowIndex1Based c - 1) + 1 \<and>
      column_of (fst u) = col_status"
    by force
  have vals: "\<forall>tab r v. (Cell_at tab col_status r, v) \<in> set updates \<longrightarrow> v = [] \<or> v = ''ERROR''"
  proof (intro allI impI)
    fix tab r v
    assume "(Cell_at tab col_status r, v) \<in> set updates"
    then show "v = [] \<or> v = ''ERROR''"
      unfolding updates_def by (rule updates_status_values)
  qed
  have quiet: "list_all quiet_write updates"
    by (simp add: updates_def quiet_updates)
  from status_cell_after_writes [OF quiet vals, of "rowIndex1Based c - 1" g1] ex g'
  show ?thesis
    by blast
qed

end
